theory Spec2Isabelle
  imports Complex_Main "HOL-Library.Sublist"
begin

section \<open>Python text primitives\<close>

text \<open>
  Strings are lists of characters; a \<^typ>\<open>char\<close> stands for one code point of the
  Latin-1 range, which holds every character the patterns of the pipeline name
  (digits, \<open>$\<close>, \<open>,\<close>, \<open>-\<close>, \<open>.\<close>, the non-breaking space \<open>0xA0\<close>).
  \<open>isspace\<close> is the whitespace class shared by \<open>str.strip()\<close> and the pattern \<open>\s\<close>;
  \<open>is_digit\<close> is the class \<open>\d\<close>, whose only members below \<open>0x100\<close> are \<open>0..9\<close>.
\<close>

definition isspace :: "char \<Rightarrow> bool" where
  "isspace c = (c \<in> set [CHR 0x09, CHR 0x0A, CHR 0x0B, CHR 0x0C, CHR 0x0D,
                          CHR 0x1C, CHR 0x1D, CHR 0x1E, CHR 0x1F, CHR 0x20,
                          CHR 0x85, CHR 0xA0])"

definition is_digit :: "char \<Rightarrow> bool" where
  "is_digit c = (c \<in> set ''0123456789'')"

text \<open>
  \<open>str.lower()\<close>: the letters \<open>A..Z\<close> and the upper-case letters of Latin-1
  (\<open>0xC0..0xDE\<close> without the multiplication sign \<open>0xD7\<close>) go to their lower-case
  partners, which sit \<open>0x20\<close> above them: the bit of weight \<open>0x20\<close>, clear in every
  upper-case letter, is set. Every other character stays.
\<close>

definition is_upper :: "char \<Rightarrow> bool" where
  "is_upper c =
     (let n = of_char c :: nat
      in (65 \<le> n \<and> n \<le> 90) \<or> (192 \<le> n \<and> n \<le> 222 \<and> n \<noteq> 215))"

definition lower_char :: "char \<Rightarrow> char" where
  "lower_char c =
     (if is_upper c
      then (case c of Char b0 b1 b2 b3 b4 b5 b6 b7 \<Rightarrow> Char b0 b1 b2 b3 b4 True b6 b7)
      else c)"

definition lower :: "string \<Rightarrow> string" where
  "lower s = map lower_char s"

text \<open>\<open>s.strip(chars)\<close>: the characters of a class removed from both ends;
  \<open>s.strip()\<close> removes whitespace.\<close>

definition strip_where :: "(char \<Rightarrow> bool) \<Rightarrow> string \<Rightarrow> string" where
  "strip_where P s = rev (dropWhile P (rev (dropWhile P s)))"

definition strip :: "string \<Rightarrow> string" where
  "strip s = strip_where isspace s"

text \<open>\<open>re.sub(r"[class]+", r, s)\<close> for a character class and a one-letter replacement:
  every maximal run of characters of the class becomes one \<open>r\<close>.\<close>

function sub_runs :: "(char \<Rightarrow> bool) \<Rightarrow> char \<Rightarrow> string \<Rightarrow> string" where
  "sub_runs P r [] = []"
| "sub_runs P r (c # cs) =
     (if P c then r # sub_runs P r (dropWhile P cs) else c # sub_runs P r cs)"
  by pat_completeness auto
termination
  by (relation "measure (\<lambda>(P, r, s). length s)") (auto simp: length_dropWhile_le less_Suc_eq_le)

text \<open>\<open>sub in s\<close> on strings: \<open>sub\<close> occurs in \<open>s\<close> as a contiguous substring.\<close>

fun py_in :: "string \<Rightarrow> string \<Rightarrow> bool" where
  "py_in sub [] = (sub = [])"
| "py_in sub (c # cs) = (prefix sub (c # cs) \<or> py_in sub cs)"

definition digit_val :: "char \<Rightarrow> nat" where
  "digit_val c = of_char c - 48"

text \<open>\<open>int(s)\<close> on a string of decimal digits.\<close>

definition nat_of_digits :: "string \<Rightarrow> nat" where
  "nat_of_digits s = foldl (\<lambda>a c. 10 * a + digit_val c) 0 s"

text \<open>
  \<open>float(s)\<close> on a token \<open>\d+(\.\d+)?\<close>. Python's floats are IEEE doubles; the model
  computes with exact real numbers, which is what the doubles give whenever the values
  involved are representable (whole numbers below \<open>2^53\<close>, halves of them).
\<close>

definition float_of_str :: "string \<Rightarrow> real" where
  "float_of_str s =
     (let ip = takeWhile (\<lambda>c. c \<noteq> CHR ''.'') s;
          fp = drop 1 (dropWhile (\<lambda>c. c \<noteq> CHR ''.'') s)
      in of_nat (nat_of_digits ip) + of_nat (nat_of_digits fp) / 10 ^ length fp)"

text \<open>\<open>round(x)\<close> of Python 3: to the nearest integer, a tie to the even one.\<close>

definition py_round :: "real \<Rightarrow> int" where
  "py_round x =
     (let f = \<lfloor>x\<rfloor>; d = x - of_int f
      in if d < 1 / 2 then f
         else if 1 / 2 < d then f + 1
         else if even f then f else f + 1)"

section \<open>normalize.py\<close>

text \<open>
  One match of \<open>\d+(?:\.\d+)?\<close> at the head of a string that starts with a digit:
  the longest run of digits, then a dot and a run of digits when both are there.
  The result is the matched text and the rest of the string.
\<close>

definition number_at :: "string \<Rightarrow> string \<times> string" where
  "number_at s =
     (let ds = takeWhile is_digit s; r = dropWhile is_digit s
      in case r of
           d # f # r' \<Rightarrow>
             if d = CHR ''.'' \<and> is_digit f
             then (ds @ d # f # takeWhile is_digit r', dropWhile is_digit r')
             else (ds, r)
         | _ \<Rightarrow> (ds, r))"

lemma number_at_shorter:
  "is_digit c \<Longrightarrow> length (snd (number_at (c # cs))) < Suc (length cs)"
proof -
  assume c: "is_digit c"
  have a: "length (dropWhile is_digit cs) \<le> length cs"
    by (rule length_dropWhile_le)
  have b: "\<And>r. length (dropWhile is_digit r) \<le> length r"
    by (rule length_dropWhile_le)
  show ?thesis
    using c a b [of "drop 2 (dropWhile is_digit cs)"]
    by (auto simp: number_at_def Let_def split: list.splits)
qed

text \<open>\<open>re.findall(r"\d+(?:\.\d+)?", s)\<close>: the matches from left to right, each search
  resuming where the previous match ended.\<close>

function findall_number :: "string \<Rightarrow> string list" where
  "findall_number [] = []"
| "findall_number (c # cs) =
     (if is_digit c
      then fst (number_at (c # cs)) # findall_number (snd (number_at (c # cs)))
      else findall_number cs)"
  by pat_completeness auto
termination
  by (relation "measure length") (auto simp: number_at_shorter)

text \<open>\<open>normalize_price(text)\<close>; \<open>None\<close> stands for Python's \<open>None\<close> on both sides.\<close>

definition normalize_price :: "string option \<Rightarrow> int option" where
  "normalize_price text =
     (case text of
        None \<Rightarrow> None
      | Some t \<Rightarrow>
          if t = [] then None
          else
            let nums = findall_number (filter (\<lambda>c. c \<noteq> CHR '','') t) in
            if nums = [] then None
            else
              let vals = map float_of_str nums;
                  avg = sum_list vals / of_nat (length vals)
              in Some (py_round avg))"

text \<open>
  A Python value as the normalizers receive it. \<open>str(x)\<close> on an integer is its decimal
  numeral; on a float it is Python's shortest round-trip \<open>repr\<close>, which is taken as the
  parameter \<open>sf\<close> of every function that may have to print a float.
\<close>

datatype pyval = PyNone | PyInt int | PyStr string | PyFloat real

definition digit_char :: "nat \<Rightarrow> char" where
  "digit_char d = ''0123456789'' ! d"

function str_nat :: "nat \<Rightarrow> string" where
  "str_nat n = (if n < 10 then [digit_char n] else str_nat (n div 10) @ [digit_char (n mod 10)])"
  by pat_completeness auto
termination
  by (relation "measure id") auto

declare str_nat.simps [simp del]

definition str_int :: "int \<Rightarrow> string" where
  "str_int i = (if i < 0 then CHR ''-'' # str_nat (nat (- i)) else str_nat (nat i))"

definition py_str :: "(real \<Rightarrow> string) \<Rightarrow> pyval \<Rightarrow> string" where
  "py_str sf v =
     (case v of PyNone \<Rightarrow> ''None'' | PyInt i \<Rightarrow> str_int i | PyStr s \<Rightarrow> s | PyFloat x \<Rightarrow> sf x)"

text \<open>\<open>re.search(r"\d+", t)\<close>: the first longest run of digits, if there is a digit.\<close>

definition search_digits :: "string \<Rightarrow> string option" where
  "search_digits t =
     (case dropWhile (\<lambda>c. \<not> is_digit c) t of
        [] \<Rightarrow> None
      | r \<Rightarrow> Some (takeWhile is_digit r))"

text \<open>\<open>re.search(r"\d+(?:\.\d+)?", t)\<close>: the first number, starting at the first digit.\<close>

definition search_number :: "string \<Rightarrow> string option" where
  "search_number t =
     (case dropWhile (\<lambda>c. \<not> is_digit c) t of
        [] \<Rightarrow> None
      | r \<Rightarrow> Some (fst (number_at r)))"

definition normalize_beds :: "(real \<Rightarrow> string) \<Rightarrow> pyval \<Rightarrow> int option" where
  "normalize_beds sf text =
     (if text = PyNone then None
      else
        let t = lower (strip (py_str sf text)) in
        if py_in ''studio'' t then Some 0
        else (case search_digits t of
                None \<Rightarrow> None
              | Some m \<Rightarrow> Some (int (nat_of_digits m))))"

definition normalize_baths :: "(real \<Rightarrow> string) \<Rightarrow> pyval \<Rightarrow> real option" where
  "normalize_baths sf text =
     (if text = PyNone then None
      else
        let t = lower (strip (py_str sf text)) in
        (case search_number t of
           None \<Rightarrow> None
         | Some m \<Rightarrow> Some (float_of_str m)))"

definition normalize_address :: "string option \<Rightarrow> string" where
  "normalize_address addr_str =
     (case addr_str of
        None \<Rightarrow> []
      | Some a \<Rightarrow>
          if a = [] then []
          else
            let s = map (\<lambda>c. if c = CHR 0xA0 then CHR '' '' else c) a;
                s = sub_runs isspace (CHR '' '') s
            in strip s)"

section \<open>parsers.py: the record assembler\<close>

definition is_plausible_rent :: "int \<Rightarrow> bool" where
  "is_plausible_rent v = (300 \<le> v \<and> v \<le> 6000)"

text \<open>
  A listing as the dictionaries of the pipeline hold it. \<open>url\<close>, \<open>company\<close> and
  \<open>last_scraped_at\<close> are read with \<open>l[...]\<close>; the other fields are read with
  \<open>l.get(...)\<close> and may hold \<open>None\<close>.
\<close>

record listing =
  url :: string
  company :: string
  title :: "string option"
  price :: "int option"
  beds :: "int option"
  baths :: "real option"
  address :: "string option"
  last_scraped_at :: string

text \<open>
  \<open>_mk_record(url, company, title, price, beds, baths, address)\<close>. \<open>now\<close> is the date
  string \<open>_now()\<close> returns. \<open>None\<close> as result is Python's \<open>None\<close>: no record.
\<close>

definition mk_record ::
  "(real \<Rightarrow> string) \<Rightarrow> string \<Rightarrow> string \<Rightarrow> string \<Rightarrow> string \<Rightarrow> pyval \<Rightarrow> pyval \<Rightarrow> pyval
     \<Rightarrow> string option \<Rightarrow> listing option" where
  "mk_record sf now u co ttl pr bd bt addr =
     (if pr = PyNone then None
      else
        let p = (case pr of PyInt i \<Rightarrow> Some i | _ \<Rightarrow> normalize_price (Some (py_str sf pr))) in
        (case p of
           None \<Rightarrow> None
         | Some v \<Rightarrow>
             if v = 0 \<or> \<not> is_plausible_rent v then None
             else Some \<lparr>
               url = u,
               company = co,
               title = Some (take 200 (if ttl = [] then co else ttl)),
               price = Some v,
               beds = (if bd \<noteq> PyNone \<and> bd \<noteq> PyStr [] then normalize_beds sf bd else Some 0),
               baths = (if bt \<noteq> PyNone \<and> bt \<noteq> PyStr [] then normalize_baths sf bt else Some 0),
               address = Some (if addr \<noteq> None \<and> addr \<noteq> Some [] then normalize_address addr else []),
               last_scraped_at = now \<rparr>))"

section \<open>link_discovery.py\<close>

text \<open>
  The library functions the frontier builder calls are parameters of the model:
  \<open>re_search L p s\<close> says whether \<open>re.search(p, s)\<close> finds a match (the patterns are
  regular expressions that compile), \<open>urljoin L\<close> and \<open>urlparse L\<close> are those of
  \<open>urllib.parse\<close>. Of a parsed URL the code reads four parts.
\<close>

record url_parts =
  netloc :: string
  path :: string
  query :: string
  fragment :: string

record lib =
  re_search :: "string \<Rightarrow> string \<Rightarrow> bool"
  urljoin :: "string \<Rightarrow> string \<Rightarrow> string"
  urlparse :: "string \<Rightarrow> url_parts"

text \<open>
  The outcome of \<open>requests.get\<close> and \<open>raise_for_status\<close> on the seed page: an
  exception, or a page, of which the code reads the \<open>href\<close> attributes of its anchors
  in document order (\<open>soup.find_all("a", href=True)\<close>).
\<close>

datatype fetch_result = FetchError string | Page "string list"

definition SITE_RULES :: "(string \<times> string list \<times> string list) list" where
  "SITE_RULES =
    [(''granitestudentliving.com'',
        [''/listings'', ''/property'', ''/purdue'', ''location=purdue''],
        [''/about'', ''/blog'', ''/contact'', ''/payment'', ''/maintenance'',
         ''/banana-blog'', ''/careers'', ''/resident'', ''/guarantor'']),
     (''weidaapartments.com'',
        [''/availability'', ''/apartments'', ''/available'', ''/west-lafayette''],
        [''/about'', ''/blog'', ''/contact'', ''/resources'', ''/residents'', ''/maintenance'',
         ''/documents'', ''/pet-policy'']),
     (''muinzerclosetocampus.com'',
        [''/availability'', ''/properties'', ''/purdue'', ''/west-lafayette''],
        [''/residents'', ''/parents'', ''/sitemap'', ''/contact'']),
     (''americancampus.com'',
        [''/chauncey-square/.*floor-plans'', ''/campus-edge-on-pierce/.*floor-plans'', ''/detail/''],
        [''#'', ''/gallery'', ''/amenities'', ''/contact'', ''/parents'', ''/faq'', ''/jobs'',
         ''/about-us'', ''^/$'']),
     (''redpoint-westlafayette.com'',
        [''/rates-floorplans''],
        [''/features'', ''/photo-tour'', ''/management'', ''/sitemap'', ''/contact'']),
     (''smartdigs.com'',
        [''/availability'', ''/property-listing''],
        [''/rental-application'', ''/property-management'', ''/useful-information'']),
     (''yugo.com'',
        [''/west-lafayette-in/yugo-west-lafayette-river-market/rooms'',
         ''/west-lafayette-in/yugo-west-lafayette-river-market$''],
        [''/global/'', ''/united-kingdom'', ''/germany'', ''/italy'', ''/spain'', ''/australia'',
         ''/united-states-of-america/(?!west-lafayette-in)'']),
     (''alight-westlafayette.com'',
        [''/rates-floorplans''],
        [''/photo-tour'', ''/features'', ''/management'', ''/site-map'']),
     (''offcampushousing.purdue.edu'',
        [''/housing'', ''/listing''],
        [''/account'', ''/resources'', ''/help'']),
     (''riseonchauncey.com'',
        [''/availability''],
        [''/amenities'', ''/gallery'', ''/neighborhood'', ''/virtual-tour'', ''/contact'']),
     (''everwestlafayette.com'',
        [''/floor-plans'', ''floorplan=''],
        [''/contact'', ''/gallery'', ''/amenities'', ''/neighborhood'', ''/blog'']),
     (''bk-management.com'',
        [''/vacancies'', ''/purdue'', ''/west-lafayette''],
        [''/about'', ''/residents'', ''/owner'', ''/management'', ''/blog'']),
     (''wabashlanding.com'',
        [''/floor-plans''],
        [''/amenities'', ''/location'', ''/gallery'', ''/about'', ''/resident'']),
     (''lodgetrailpurdue.com'',
        [''/all-floor-plans'', ''/pricing''],
        [''/photos'', ''/contact'', ''/home'']),
     (''fairway-apartments.com'',
        [''/availability'', ''/floor-plans''],
        [''/the-amenities'', ''/the-gallery'', ''/accessibility'', ''/photos''])]"

text \<open>\<open>_match_any(patterns, path)\<close>.\<close>

definition match_any :: "lib \<Rightarrow> string list \<Rightarrow> string \<Rightarrow> bool" where
  "match_any L patterns pth =
     (if patterns = [] then True else list_ex (\<lambda>p. re_search L p pth) patterns)"

text \<open>
  The presets: when the caller left a filter out, the first rule whose site name occurs
  in the host fills the missing ones. A filter is \<open>None\<close> or a list of patterns.
\<close>

definition resolve_rules ::
  "string \<Rightarrow> string list option \<Rightarrow> string list option
     \<Rightarrow> string list option \<times> string list option" where
  "resolve_rules host allow_patterns deny_patterns =
     (if allow_patterns = None \<or> deny_patterns = None
      then (case find (\<lambda>(site, allow, deny). py_in site host) SITE_RULES of
              None \<Rightarrow> (allow_patterns, deny_patterns)
            | Some (site, allow, deny) \<Rightarrow>
                (if allow_patterns = None then Some allow else allow_patterns,
                 if deny_patterns = None then Some deny else deny_patterns))
      else (allow_patterns, deny_patterns))"

text \<open>A filter is truthy when it is a list with at least one pattern.\<close>

definition truthy :: "string list option \<Rightarrow> bool" where
  "truthy ps = (case ps of None \<Rightarrow> False | Some l \<Rightarrow> l \<noteq> [])"

text \<open>
  The two filter lines of the loop, on the path and query of a link: the link goes on
  when neither \<open>continue\<close> is taken.
\<close>

definition passes_filters ::
  "lib \<Rightarrow> string list option \<Rightarrow> string list option \<Rightarrow> string \<Rightarrow> bool" where
  "passes_filters L allow_patterns deny_patterns path_q =
     (if truthy deny_patterns \<and> match_any L (the deny_patterns) path_q then False
      else if truthy allow_patterns \<and> \<not> match_any L (the allow_patterns) path_q then False
      else True)"

definition asset_exts :: "string list" where
  "asset_exts = [''.pdf'', ''.jpg'', ''.jpeg'', ''.png'', ''.gif'', ''.svg'']"

text \<open>\<open>re.search(r"(unit_|floorplan|detail)", fragment, re.I)\<close>.\<close>

definition unit_anchor :: "string \<Rightarrow> bool" where
  "unit_anchor frag =
     list_ex (\<lambda>w. py_in w (lower frag)) [''unit_'', ''floorplan'', ''detail'']"

text \<open>One round of the loop over the anchors: the URL appended to \<open>out\<close>, if any.\<close>

definition keep_link ::
  "lib \<Rightarrow> string \<Rightarrow> string \<Rightarrow> bool \<Rightarrow> string list option \<Rightarrow> string list option
     \<Rightarrow> string \<Rightarrow> string option" where
  "keep_link L start_url host same_domain allow_patterns deny_patterns raw_href =
     (let href = strip raw_href in
      if href = [] \<or> prefix ''mailto:'' href \<or> prefix ''tel:'' href then None
      else
        let url = urljoin L start_url href;
            u = urlparse L url
        in if same_domain \<and> netloc u \<noteq> host then None
           else if list_ex (\<lambda>ext. suffix ext (lower url)) asset_exts then None
           else if fragment u \<noteq> [] \<and> \<not> unit_anchor (fragment u) then None
           else
             let path_q = path u @ (if query u \<noteq> [] then ''?'' @ query u else [])
             in if passes_filters L allow_patterns deny_patterns path_q then Some url
                else None)"

text \<open>\<open>list(dict.fromkeys(out))\<close>: the keys of a dictionary in the order of their
  first insertion.\<close>

definition dict_fromkeys :: "'a list \<Rightarrow> 'a list" where
  "dict_fromkeys xs = fold (\<lambda>k keys. if k \<in> set keys then keys else keys @ [k]) xs []"

text \<open>The list \<open>out\<close> when the loop over the anchors is done, before it is deduplicated.\<close>

definition collected_links ::
  "lib \<Rightarrow> string list \<Rightarrow> string \<Rightarrow> bool \<Rightarrow> string list option \<Rightarrow> string list option
     \<Rightarrow> string list" where
  "collected_links L hrefs start_url same_domain allow_patterns deny_patterns =
     (let host = netloc (urlparse L start_url);
          (allow, deny) = resolve_rules host allow_patterns deny_patterns
      in List.map_filter (keep_link L start_url host same_domain allow deny) hrefs)"

text \<open>
  \<open>discover_links(start_url, max_pages=1, same_domain=True, allow_patterns=None,
  deny_patterns=None)\<close>, given the outcome of the fetch. The body never reads
  \<open>max_pages\<close>; the cap is the constant 200.
\<close>

definition discover_links ::
  "lib \<Rightarrow> fetch_result \<Rightarrow> string \<Rightarrow> int \<Rightarrow> bool \<Rightarrow> string list option \<Rightarrow> string list option
     \<Rightarrow> string list" where
  "discover_links L resp start_url max_pages same_domain allow_patterns deny_patterns =
     (case resp of
        FetchError e \<Rightarrow> []
      | Page hrefs \<Rightarrow>
          take 200 (dict_fromkeys
            (collected_links L hrefs start_url same_domain allow_patterns deny_patterns)))"

section \<open>scraper_selenium.py: the candidates of a site crawl\<close>

definition MAX_LINKS_PER_SITE :: nat where
  "MAX_LINKS_PER_SITE = 120"

text \<open>
  The head of \<open>scrape_site(driver, start_url, allow_patterns, deny_patterns)\<close>: the links
  its loop goes through, \<open>discovered[:MAX_LINKS_PER_SITE]\<close>.
\<close>

definition scrape_site_candidates ::
  "lib \<Rightarrow> fetch_result \<Rightarrow> string \<Rightarrow> string list option \<Rightarrow> string list option
     \<Rightarrow> string list" where
  "scrape_site_candidates L resp start_url allow_patterns deny_patterns =
     (let discovered = discover_links L resp start_url 1 True allow_patterns deny_patterns;
          discovered = (if discovered = [] then [start_url] else discovered)
      in take MAX_LINKS_PER_SITE discovered)"

text \<open>
  A stand-in for the library on the pages of the examples below, whose links are
  absolute paths on the host \<open>x.com\<close> without query or fragment, and whose patterns
  are plain text without metacharacters (for which \<open>re.search\<close> is substring search).
\<close>

definition demo_lib :: lib where
  "demo_lib = \<lparr>
     re_search = (\<lambda>p s. py_in p s),
     urljoin = (\<lambda>base h. ''https://x.com'' @ h),
     urlparse = (\<lambda>u. \<lparr>netloc = ''x.com'', path = drop 13 u, query = [], fragment = []\<rparr>) \<rparr>"

text \<open>The patterns of a filter: none when the filter is \<open>None\<close>.\<close>

definition patterns_of :: "string list option \<Rightarrow> string list" where
  "patterns_of ps = (case ps of None \<Rightarrow> [] | Some l \<Rightarrow> l)"

section \<open>Properties of the frontier builder\<close>

lemma dict_fromkeys_snoc:
  "dict_fromkeys (xs @ [x]) =
     (if x \<in> set (dict_fromkeys xs) then dict_fromkeys xs else dict_fromkeys xs @ [x])"
  by (simp add: dict_fromkeys_def)

lemma dict_fromkeys_Nil: "dict_fromkeys [] = []"
  by (simp add: dict_fromkeys_def)

lemma set_dict_fromkeys: "set (dict_fromkeys xs) = set xs"
  by (induction xs rule: rev_induct) (auto simp: dict_fromkeys_snoc dict_fromkeys_Nil)

lemma distinct_dict_fromkeys: "distinct (dict_fromkeys xs)"
  by (induction xs rule: rev_induct) (auto simp: dict_fromkeys_snoc dict_fromkeys_Nil)

lemma length_dict_fromkeys: "length (dict_fromkeys xs) = card (set xs)"
  using distinct_card [OF distinct_dict_fromkeys, of xs] by (simp add: set_dict_fromkeys)

lemma dict_fromkeys_first_seen:
  "i < length (dict_fromkeys xs) \<Longrightarrow>
     \<exists>k<length xs. xs ! k = dict_fromkeys xs ! i \<and> dict_fromkeys xs ! i \<notin> set (take k xs)
        \<and> set (take k xs) = set (take i (dict_fromkeys xs))"
proof (induction xs arbitrary: i rule: rev_induct)
  case Nil
  then show ?case by (simp add: dict_fromkeys_Nil)
next
  case (snoc x xs)
  show ?case
  proof (cases "i < length (dict_fromkeys xs)")
    case True
    from snoc.IH [OF True] obtain k where k: "k < length xs" "xs ! k = dict_fromkeys xs ! i"
      "dict_fromkeys xs ! i \<notin> set (take k xs)" "set (take k xs) = set (take i (dict_fromkeys xs))"
      by blast
    have "dict_fromkeys (xs @ [x]) ! i = dict_fromkeys xs ! i"
      using True by (simp add: dict_fromkeys_snoc nth_append)
    moreover have "take i (dict_fromkeys (xs @ [x])) = take i (dict_fromkeys xs)"
      using True by (simp add: dict_fromkeys_snoc)
    ultimately show ?thesis
      using k by (intro exI [of _ k]) (simp add: nth_append)
  next
    case False
    with snoc.prems have new: "x \<notin> set (dict_fromkeys xs)" and i: "i = length (dict_fromkeys xs)"
      by (auto simp: dict_fromkeys_snoc split: if_splits)
    then show ?thesis
      by (intro exI [of _ "length xs"]) (simp add: dict_fromkeys_snoc set_dict_fromkeys)
  qed
qed

text \<open>
  C5. Deny-then-allow filtering: a link passes the two filter lines if and only if no
  deny pattern is found in its path and query and either there is no allow pattern or
  one of them is found. Under the deny pattern \<open>/blog\<close> and the allow pattern
  \<open>/listings\<close> the candidate \<open>/blog/listings/foo\<close> is excluded, and a page that
  links to it and to \<open>/listings/bar\<close> yields the second link only.
\<close>

theorem deny_then_allow_filter:
  "passes_filters L allow_patterns deny_patterns path_q =
     ((\<not> (\<exists>p \<in> set (patterns_of deny_patterns). re_search L p path_q))
      \<and> (patterns_of allow_patterns = []
          \<or> (\<exists>p \<in> set (patterns_of allow_patterns). re_search L p path_q)))
   \<and> passes_filters demo_lib (Some [''/listings'']) (Some [''/blog'']) ''/blog/listings/foo'' = False
   \<and> discover_links demo_lib (Page [''/blog/listings/foo'', ''/listings/bar'']) ''https://x.com/''
        1 True (Some [''/listings'']) (Some [''/blog'']) = [''https://x.com/listings/bar'']"
proof -
  have a: "passes_filters L allow_patterns deny_patterns path_q =
     ((\<not> (\<exists>p \<in> set (patterns_of deny_patterns). re_search L p path_q))
      \<and> (patterns_of allow_patterns = []
          \<or> (\<exists>p \<in> set (patterns_of allow_patterns). re_search L p path_q)))"
    by (cases allow_patterns; cases deny_patterns)
      (auto simp: passes_filters_def truthy_def match_any_def patterns_of_def list_ex_iff)
  have b: "passes_filters demo_lib (Some [''/listings'']) (Some [''/blog'']) ''/blog/listings/foo'' = False"
    by (simp add: passes_filters_def truthy_def match_any_def demo_lib_def)
  have c: "discover_links demo_lib (Page [''/blog/listings/foo'', ''/listings/bar'']) ''https://x.com/''
        1 True (Some [''/listings'']) (Some [''/blog'']) = [''https://x.com/listings/bar'']"
    by (simp add: discover_links_def collected_links_def resolve_rules_def keep_link_def
        List.map_filter_def passes_filters_def truthy_def match_any_def demo_lib_def
        dict_fromkeys_def strip_def strip_where_def isspace_def asset_exts_def suffix_to_prefix lower_def lower_char_def is_upper_def Let_def)
  from a b c show ?thesis by simp
qed

text \<open>
  C6. The shape of the frontier: the list \<open>discover_links\<close> returns for a fetched page
  has no duplicates, has at most 200 elements (as many as there are different collected
  links, up to 200), and keeps the links in the order in which they were first seen:
  its \<open>i\<close>-th element is first met at some position \<open>k\<close> of the collected list, and the
  links met before \<open>k\<close> are exactly the \<open>i\<close> elements before it. The bound is the
  constant 200: the result is the same whatever \<open>max_pages\<close> is.
\<close>

theorem discover_links_output_shape:
  "let out = discover_links L (Page hrefs) start_url max_pages same_domain allow_patterns deny_patterns;
       coll = collected_links L hrefs start_url same_domain allow_patterns deny_patterns
   in distinct out \<and> length out \<le> 200 \<and> length out = min 200 (card (set coll))
      \<and> out = discover_links L (Page hrefs) start_url 1 same_domain allow_patterns deny_patterns
      \<and> (\<forall>i<length out. \<exists>k<length coll.
            coll ! k = out ! i \<and> out ! i \<notin> set (take k coll)
            \<and> set (take k coll) = set (take i out))"
proof -
  define coll where "coll = collected_links L hrefs start_url same_domain allow_patterns deny_patterns"
  define out where "out = discover_links L (Page hrefs) start_url max_pages same_domain allow_patterns deny_patterns"
  have out: "out = take 200 (dict_fromkeys coll)"
    by (simp add: out_def coll_def discover_links_def)
  have d: "distinct out"
    by (simp add: out distinct_dict_fromkeys)
  have l: "length out = min 200 (card (set coll))"
    by (simp add: out length_dict_fromkeys min.commute)
  have f: "\<exists>k<length coll. coll ! k = out ! i \<and> out ! i \<notin> set (take k coll)
            \<and> set (take k coll) = set (take i out)" if i: "i < length out" for i
  proof -
    from i have i': "i < length (dict_fromkeys coll)" and i200: "i < 200"
      by (simp_all add: out)
    from i200 have "out ! i = dict_fromkeys coll ! i" "take i out = take i (dict_fromkeys coll)"
      by (simp_all add: out min.absorb1)
    with dict_fromkeys_first_seen [OF i'] show ?thesis by simp
  qed
  have m: "out = discover_links L (Page hrefs) start_url 1 same_domain allow_patterns deny_patterns"
    by (simp add: out_def discover_links_def)
  from d l f m show ?thesis
    unfolding Let_def out_def [symmetric] coll_def [symmetric] by simp
qed

theorem discover_links_output_shape_witness:
  "discover_links demo_lib (Page [''/a'', ''/b'', ''/a'', ''/c'']) ''https://x.com/'' 1 True None None
     = [''https://x.com/a'', ''https://x.com/b'', ''https://x.com/c'']
   \<and> collected_links demo_lib [''/a'', ''/b'', ''/a'', ''/c''] ''https://x.com/'' True None None
     = [''https://x.com/a'', ''https://x.com/b'', ''https://x.com/a'', ''https://x.com/c'']
   \<and> (\<exists>k<4. [''https://x.com/a'', ''https://x.com/b'', ''https://x.com/a'', ''https://x.com/c''] ! k
              = ''https://x.com/c''
            \<and> ''https://x.com/c''
              \<notin> set (take k [''https://x.com/a'', ''https://x.com/b'', ''https://x.com/a'', ''https://x.com/c''])
            \<and> set (take k [''https://x.com/a'', ''https://x.com/b'', ''https://x.com/a'', ''https://x.com/c''])
              = {''https://x.com/a'', ''https://x.com/b''})"
proof -
  have c: "collected_links demo_lib [''/a'', ''/b'', ''/a'', ''/c''] ''https://x.com/'' True None None
     = [''https://x.com/a'', ''https://x.com/b'', ''https://x.com/a'', ''https://x.com/c'']"
    by (simp add: collected_links_def resolve_rules_def SITE_RULES_def keep_link_def
        List.map_filter_def passes_filters_def truthy_def demo_lib_def strip_def strip_where_def isspace_def
        asset_exts_def suffix_to_prefix lower_def lower_char_def is_upper_def Let_def)
  have o: "discover_links demo_lib (Page [''/a'', ''/b'', ''/a'', ''/c'']) ''https://x.com/'' 1 True None None
     = [''https://x.com/a'', ''https://x.com/b'', ''https://x.com/c'']"
    by (simp add: discover_links_def c dict_fromkeys_def)
  have "\<forall>i<3. \<exists>k<4.
      [''https://x.com/a'', ''https://x.com/b'', ''https://x.com/a'', ''https://x.com/c''] ! k
        = [''https://x.com/a'', ''https://x.com/b'', ''https://x.com/c''] ! i
      \<and> [''https://x.com/a'', ''https://x.com/b'', ''https://x.com/c''] ! i
        \<notin> set (take k [''https://x.com/a'', ''https://x.com/b'', ''https://x.com/a'', ''https://x.com/c''])
      \<and> set (take k [''https://x.com/a'', ''https://x.com/b'', ''https://x.com/a'', ''https://x.com/c''])
        = set (take i [''https://x.com/a'', ''https://x.com/b'', ''https://x.com/c''])"
    using discover_links_output_shape
      [of demo_lib "[''/a'', ''/b'', ''/a'', ''/c'']" "''https://x.com/''" 1 True None None]
    unfolding Let_def o c by (simp add: eval_nat_numeral)
  then have "\<exists>k<4.
      [''https://x.com/a'', ''https://x.com/b'', ''https://x.com/a'', ''https://x.com/c''] ! k
        = [''https://x.com/a'', ''https://x.com/b'', ''https://x.com/c''] ! 2
      \<and> [''https://x.com/a'', ''https://x.com/b'', ''https://x.com/c''] ! 2
        \<notin> set (take k [''https://x.com/a'', ''https://x.com/b'', ''https://x.com/a'', ''https://x.com/c''])
      \<and> set (take k [''https://x.com/a'', ''https://x.com/b'', ''https://x.com/a'', ''https://x.com/c''])
        = set (take 2 [''https://x.com/a'', ''https://x.com/b'', ''https://x.com/c''])"
    by (rule allE [of _ 2]) simp
  then have "\<exists>k<4.
      [''https://x.com/a'', ''https://x.com/b'', ''https://x.com/a'', ''https://x.com/c''] ! k
        = ''https://x.com/c''
      \<and> ''https://x.com/c''
        \<notin> set (take k [''https://x.com/a'', ''https://x.com/b'', ''https://x.com/a'', ''https://x.com/c''])
      \<and> set (take k [''https://x.com/a'', ''https://x.com/b'', ''https://x.com/a'', ''https://x.com/c''])
        = {''https://x.com/a'', ''https://x.com/b''}"
    by simp
  with o c show ?thesis by blast
qed

text \<open>
  C7. When the fetch of the seed page raises, \<open>discover_links\<close> returns the empty list;
  and whenever the discovery of a site crawl comes back empty, the crawl goes through
  the seed URL alone.
\<close>

theorem fetch_failure_degrades_to_seed:
  "discover_links L (FetchError e) start_url max_pages same_domain allow_patterns deny_patterns = []
   \<and> scrape_site_candidates L (FetchError e) start_url allow_patterns deny_patterns = [start_url]
   \<and> (discover_links L resp start_url 1 True allow_patterns deny_patterns = []
        \<longrightarrow> scrape_site_candidates L resp start_url allow_patterns deny_patterns = [start_url])"
  by (simp add: discover_links_def scrape_site_candidates_def MAX_LINKS_PER_SITE_def)

theorem fetch_failure_degrades_to_seed_witness:
  "discover_links demo_lib (Page [''mailto:office@x.com'']) ''https://x.com/'' 1 True None None = []
   \<and> scrape_site_candidates demo_lib (Page [''mailto:office@x.com'']) ''https://x.com/'' None None
     = [''https://x.com/'']"
proof -
  have d: "discover_links demo_lib (Page [''mailto:office@x.com'']) ''https://x.com/'' 1 True None None = []"
    by (simp add: discover_links_def collected_links_def resolve_rules_def SITE_RULES_def
        keep_link_def List.map_filter_def demo_lib_def strip_def strip_where_def isspace_def dict_fromkeys_def
        Let_def)
  show ?thesis
    using d fetch_failure_degrades_to_seed
      [of demo_lib "''boom''" "''https://x.com/''" 1 True None None "Page [''mailto:office@x.com'']"]
    by simp
qed

section \<open>scraper_selenium.py: the idempotent store\<close>

lemma digit_val_digit_char: "d < 10 \<Longrightarrow> digit_val (digit_char d) = d"
proof -
  assume "d < 10"
  then have "d \<in> {0, 1, 2, 3, 4, 5, 6, 7, 8, 9}" by auto
  then show ?thesis
    by (auto simp: digit_val_def digit_char_def)
qed

lemma nat_of_digits_snoc: "nat_of_digits (s @ [c]) = 10 * nat_of_digits s + digit_val c"
  by (simp add: nat_of_digits_def)

lemma nat_of_digits_str_nat: "nat_of_digits (str_nat n) = n"
proof (induction n rule: str_nat.induct)
  case (1 n)
  show ?case
  proof (cases "n < 10")
    case True
    then show ?thesis
      by (subst str_nat.simps) (simp add: nat_of_digits_def digit_val_digit_char)
  next
    case False
    with 1 have "nat_of_digits (str_nat (n div 10)) = n div 10" by simp
    with False show ?thesis
      by (subst str_nat.simps) (simp add: nat_of_digits_snoc digit_val_digit_char)
  qed
qed

lemma str_nat_inj: "str_nat m = str_nat n \<Longrightarrow> m = n"
  by (metis nat_of_digits_str_nat)

text \<open>The candidate \<open>f"{synth}-{i}"\<close>.\<close>

definition numbered :: "string \<Rightarrow> nat \<Rightarrow> string" where
  "numbered synth i = synth @ ''-'' @ str_nat i"

lemma numbered_inj: "numbered synth i = numbered synth j \<Longrightarrow> i = j"
  by (simp add: numbered_def str_nat_inj)

lemma finite_numbered_in: "finite {j. numbered synth j \<in> set seen}"
proof -
  have "inj (numbered synth)"
    by (rule injI) (rule numbered_inj)
  then have "finite (numbered synth -` set seen)"
    by (intro finite_vimageI) simp_all
  then show ?thesis by (simp add: vimage_def)
qed

lemma numbered_later_less:
  "numbered synth (Suc i) \<in> set seen \<Longrightarrow>
     card {j. Suc i < j \<and> numbered synth j \<in> set seen} < card {j. i < j \<and> numbered synth j \<in> set seen}"
proof -
  assume a: "numbered synth (Suc i) \<in> set seen"
  have f: "finite {j. i < j \<and> numbered synth j \<in> set seen}"
    by (rule finite_subset [OF _ finite_numbered_in [of synth seen]]) auto
  have "{j. Suc i < j \<and> numbered synth j \<in> set seen} \<subset> {j. i < j \<and> numbered synth j \<in> set seen}"
    using a by auto
  then show ?thesis
    by (rule psubset_card_mono [OF f])
qed

lemma numbered_later_le:
  "card {j. Suc i < j \<and> numbered synth j \<in> set seen} \<le> card {j. i < j \<and> numbered synth j \<in> set seen}"
proof -
  have f: "finite {j. i < j \<and> numbered synth j \<in> set seen}"
    by (rule finite_subset [OF _ finite_numbered_in [of synth seen]]) auto
  show ?thesis
    by (rule card_mono [OF f]) auto
qed

function bump :: "string \<Rightarrow> string list \<Rightarrow> nat \<Rightarrow> string \<Rightarrow> string" where
  "bump synth seen i unique_url =
     (if unique_url \<in> set seen then bump synth seen (Suc i) (numbered synth (Suc i))
      else unique_url)"
  by pat_completeness auto
termination
proof (relation "measure (\<lambda>(synth, seen, i, u).
    2 * card {j. i < j \<and> numbered synth j \<in> set seen} + (if u \<in> set seen then 1 else 0))")
  show "wf (measure (\<lambda>(synth, seen, i, u).
    2 * card {j. i < j \<and> numbered synth j \<in> set seen} + (if u \<in> set seen then 1 else 0)))"
    by simp
next
  fix synth seen i and unique_url :: string
  assume "unique_url \<in> set seen"
  then show "((synth, seen, Suc i, numbered synth (Suc i)), (synth, seen, i, unique_url))
    \<in> measure (\<lambda>(synth, seen, i, u).
        2 * card {j. i < j \<and> numbered synth j \<in> set seen} + (if u \<in> set seen then 1 else 0))"
    using numbered_later_less [of synth i seen] numbered_later_le [of i synth seen]
    by auto
qed

declare bump.simps [simp del]

text \<open>\<open>_slug(s)\<close>.\<close>

definition is_slug_char :: "char \<Rightarrow> bool" where
  "is_slug_char c = (c \<in> set ''abcdefghijklmnopqrstuvwxyz0123456789'')"

definition slug :: "string \<Rightarrow> string" where
  "slug s =
     (let s = lower s;
          s = strip_where (\<lambda>c. c = CHR ''-'') (sub_runs (\<lambda>c. \<not> is_slug_char c) (CHR ''-'') s);
          s = take 60 s
      in if s = [] then ''unit'' else s)"

text \<open>The synthetic URL of a row of a shared page, \<open>url + f"#unit-{_slug(title)}-{price}"\<close>,
  with \<open>title = (l.get("title") or "").strip()\<close> and \<open>price = int(l.get("price") or 0)\<close>.\<close>

definition synth_url :: "string \<Rightarrow> listing \<Rightarrow> string" where
  "synth_url u l =
     (let ttl = strip (case title l of None \<Rightarrow> [] | Some t \<Rightarrow> t);
          pr = (case price l of None \<Rightarrow> 0 | Some p \<Rightarrow> p)
      in u @ ''#unit-'' @ slug ttl @ ''-'' @ str_int pr)"

text \<open>
  \<open>by_url\<close> is a dictionary from a URL to the rows that carry it, with its keys in the
  order of their first insertion. The rows are the listing objects themselves, which
  the function then changes in place; the model names each object by its position in
  \<open>listings\<close> (no object occurs twice in the list).
\<close>

fun append_row :: "(string \<times> nat list) list \<Rightarrow> string \<Rightarrow> nat \<Rightarrow> (string \<times> nat list) list" where
  "append_row [] k i = [(k, [i])]"
| "append_row ((k', rows) # d) k i =
     (if k' = k then (k', rows @ [i]) # d else (k', rows) # append_row d k i)"

definition group_by_url :: "listing list \<Rightarrow> (string \<times> nat list) list" where
  "group_by_url ls = fold (\<lambda>i d. append_row d (url (ls ! i)) i) [0..<length ls] []"

text \<open>The loop over the rows of one shared URL; \<open>seen\<close> holds the URLs given out so far.\<close>

fun rename_rows :: "string \<Rightarrow> nat list \<Rightarrow> string list \<Rightarrow> listing list \<Rightarrow> listing list" where
  "rename_rows u [] seen ls = ls"
| "rename_rows u (i # rows) seen ls =
     (let l = ls ! i;
          synth = synth_url u l;
          unique_url = bump synth seen 1 synth
      in rename_rows u rows (unique_url # seen) (ls[i := l\<lparr>url := unique_url\<rparr>]))"

text \<open>The loop over \<open>by_url.items()\<close>.\<close>

fun stabilize_groups :: "(string \<times> nat list) list \<Rightarrow> listing list \<Rightarrow> listing list" where
  "stabilize_groups [] ls = ls"
| "stabilize_groups ((u, rows) # groups) ls =
     stabilize_groups groups (if length rows = 1 then ls else rename_rows u rows [] ls)"

definition stabilize_unit_urls :: "listing list \<Rightarrow> listing list" where
  "stabilize_unit_urls listings = stabilize_groups (group_by_url listings) listings"






text \<open>A listing and a table for the examples below.\<close>

definition demo_listing :: listing where
  "demo_listing = \<lparr>url = ''https://x.com/a'', company = ''Test Co'', title = Some ''A1'',
     price = Some 1200, beds = Some 2, baths = Some (3 / 2), address = Some ''1 Main St'',
     last_scraped_at = ''11-03-2026''\<rparr>"


section \<open>Properties of the store\<close>










section \<open>Properties of the text normalizer\<close>

text \<open>A string in which every character of the class is the letter \<open>r\<close> and stands alone.\<close>

fun single_runs :: "(char \<Rightarrow> bool) \<Rightarrow> char \<Rightarrow> string \<Rightarrow> bool" where
  "single_runs P r [] = True"
| "single_runs P r (c # cs) = ((P c \<longrightarrow> c = r \<and> (cs = [] \<or> \<not> P (hd cs))) \<and> single_runs P r cs)"

lemma hd_sub_runs: "s \<noteq> [] \<Longrightarrow> \<not> P (hd s) \<Longrightarrow> sub_runs P r s \<noteq> [] \<and> hd (sub_runs P r s) = hd s"
  by (cases s) auto

lemma sub_runs_Nil_iff: "sub_runs P r s = [] \<longleftrightarrow> s = []"
  by (cases s) auto

lemma dropWhile_head: "dropWhile P s = [] \<or> \<not> P (hd (dropWhile P s))"
  by (metis hd_dropWhile)

lemma single_runs_sub_runs: "single_runs P r (sub_runs P r s)"
proof (induction P r s rule: sub_runs.induct)
  case (1 P r)
  show ?case by simp
next
  case (2 P r c cs)
  show ?case
  proof (cases "P c")
    case True
    have "sub_runs P r (dropWhile P cs) = [] \<or> \<not> P (hd (sub_runs P r (dropWhile P cs)))"
    proof (cases "dropWhile P cs = []")
      case True
      then have "sub_runs P r (dropWhile P cs) = sub_runs P r []" by (simp only:)
      then show ?thesis by simp
    next
      case False
      with dropWhile_head [of P cs] have "\<not> P (hd (dropWhile P cs))" by blast
      with False hd_sub_runs [of "dropWhile P cs" P r] show ?thesis by metis
    qed
    with True 2 show ?thesis by simp
  next
    case False
    with 2 show ?thesis by simp
  qed
qed

lemma single_runs_fixed: "single_runs P r s \<Longrightarrow> sub_runs P r s = s"
proof (induction s)
  case Nil
  show ?case by simp
next
  case (Cons c cs)
  then have "P c \<Longrightarrow> dropWhile P cs = cs"
    by (cases cs) auto
  with Cons show ?case by auto
qed

lemma single_runs_member: "single_runs P r s \<Longrightarrow> c \<in> set s \<Longrightarrow> P c \<Longrightarrow> c = r"
  by (induction s) auto

lemma single_runs_adjacent:
  "single_runs P r s \<Longrightarrow> Suc i < length s \<Longrightarrow> P (s ! i) \<Longrightarrow> \<not> P (s ! Suc i)"
proof (induction s arbitrary: i)
  case Nil
  then show ?case by simp
next
  case (Cons c cs)
  show ?case
  proof (cases i)
    case 0
    with Cons.prems show ?thesis by (cases cs) auto
  next
    case (Suc j)
    with Cons show ?thesis by auto
  qed
qed

lemma single_runs_dropWhile: "single_runs P r s \<Longrightarrow> single_runs P r (dropWhile Q s)"
  by (induction s) auto

lemma single_runs_prefix: "single_runs P r (xs @ ys) \<Longrightarrow> single_runs P r xs"
proof (induction xs)
  case Nil
  show ?case by simp
next
  case (Cons c xs)
  then show ?case by (cases xs) auto
qed

lemma rev_dropWhile_rev_prefix: "s = rev (dropWhile P (rev s)) @ rev (takeWhile P (rev s))"
proof -
  have "rev (dropWhile P (rev s)) @ rev (takeWhile P (rev s))
      = rev (takeWhile P (rev s) @ dropWhile P (rev s))"
    by (simp only: rev_append)
  also have "\<dots> = rev (rev s)"
    by (simp only: takeWhile_dropWhile_id)
  finally show ?thesis by simp
qed

lemma single_runs_strip: "single_runs P r s \<Longrightarrow> single_runs P r (strip_where Q s)"
proof -
  assume "single_runs P r s"
  then have a: "single_runs P r (dropWhile Q s)" by (rule single_runs_dropWhile)
  have "dropWhile Q s = rev (dropWhile Q (rev (dropWhile Q s))) @ rev (takeWhile Q (rev (dropWhile Q s)))"
    by (rule rev_dropWhile_rev_prefix)
  with a have "single_runs P r (rev (dropWhile Q (rev (dropWhile Q s))) @ rev (takeWhile Q (rev (dropWhile Q s))))"
    by simp
  then show ?thesis
    unfolding strip_where_def by (rule single_runs_prefix)
qed

lemma strip_where_ends:
  "strip_where P s = [] \<or> (\<not> P (hd (strip_where P s)) \<and> \<not> P (last (strip_where P s)))"
proof (cases "strip_where P s = []")
  case True
  then show ?thesis by simp
next
  case False
  define v where "v = dropWhile P s"
  define w where "w = dropWhile P (rev v)"
  have u: "strip_where P s = rev w" by (simp add: strip_where_def v_def w_def)
  with False have w: "w \<noteq> []" by simp
  then have "\<not> P (hd w)" unfolding w_def by (metis hd_dropWhile)
  with w have l: "\<not> P (last (rev w))" by (simp add: last_rev)
  have v: "v = rev w @ rev (takeWhile P (rev v))"
    unfolding w_def by (rule rev_dropWhile_rev_prefix)
  with w have "v \<noteq> []" by auto
  then have "\<not> P (hd v)" unfolding v_def by (metis hd_dropWhile)
  moreover from v w have "hd v = hd (rev w)" by (metis hd_append2 rev_is_Nil_conv)
  ultimately show ?thesis using l u by simp
qed

lemma strip_where_fixed:
  "s = [] \<or> (\<not> P (hd s) \<and> \<not> P (last s)) \<Longrightarrow> strip_where P s = s"
proof (cases s)
  case Nil
  then show ?thesis by (simp add: strip_where_def)
next
  case (Cons c cs)
  assume "s = [] \<or> (\<not> P (hd s) \<and> \<not> P (last s))"
  with Cons have h: "\<not> P c" and l: "\<not> P (last s)" by auto
  from h Cons have a: "dropWhile P s = s" by simp
  from Cons have "rev s \<noteq> []" by simp
  with l have "dropWhile P (rev s) = rev s"
    by (cases "rev s") (auto simp: hd_rev [symmetric])
  with a show ?thesis by (simp add: strip_where_def)
qed

text \<open>
  C10. Address normalization is idempotent: normalizing an output again gives it back.
  Every output is free of non-breaking spaces, neither starts nor ends with whitespace,
  and each whitespace character in it is a single space followed by a character that
  is not whitespace; \<open>None\<close> and the empty string give the empty string.
\<close>

theorem normalize_address_idempotent:
  "normalize_address (Some (normalize_address a)) = normalize_address a
   \<and> normalize_address None = [] \<and> normalize_address (Some []) = []
   \<and> CHR 0xA0 \<notin> set (normalize_address a)
   \<and> (normalize_address a = []
       \<or> (\<not> isspace (hd (normalize_address a)) \<and> \<not> isspace (last (normalize_address a))))
   \<and> (\<forall>i. Suc i < length (normalize_address a) \<and> isspace (normalize_address a ! i)
         \<longrightarrow> normalize_address a ! i = CHR '' '' \<and> \<not> isspace (normalize_address a ! Suc i))"
proof -
  define out where "out = normalize_address a"
  have sr: "single_runs isspace (CHR '' '') out"
  proof (cases a)
    case None
    then show ?thesis by (simp add: out_def normalize_address_def)
  next
    case (Some t)
    show ?thesis
      unfolding out_def Some normalize_address_def Let_def strip_def
      by (auto intro: single_runs_strip single_runs_sub_runs)
  qed
  have ends: "out = [] \<or> (\<not> isspace (hd out) \<and> \<not> isspace (last out))"
  proof (cases a)
    case None
    then show ?thesis by (simp add: out_def normalize_address_def)
  next
    case (Some t)
    show ?thesis
      unfolding out_def Some normalize_address_def Let_def strip_def
      using strip_where_ends [of isspace] by auto
  qed
  have nb: "CHR 0xA0 \<notin> set out"
  proof
    assume "CHR 0xA0 \<in> set out"
    from single_runs_member [OF sr this] show False by (simp add: isspace_def)
  qed
  then have m: "map (\<lambda>c. if c = CHR 0xA0 then CHR '' '' else c) out = out"
    by (induction out) auto
  have idem: "normalize_address (Some out) = out"
  proof (cases "out = []")
    case True
    then show ?thesis by (simp add: normalize_address_def)
  next
    case False
    then show ?thesis
      using ends by (simp add: normalize_address_def m single_runs_fixed [OF sr] strip_def strip_where_fixed)
  qed
  have adj: "\<And>i. Suc i < length out \<Longrightarrow> isspace (out ! i) \<Longrightarrow> out ! i = CHR '' '' \<and> \<not> isspace (out ! Suc i)"
    using single_runs_adjacent [OF sr] single_runs_member [OF sr] by (meson Suc_lessD nth_mem)
  show ?thesis
    unfolding out_def [symmetric]
    using idem nb ends adj by (simp add: normalize_address_def)
qed

theorem normalize_address_idempotent_witness:
  "normalize_address (Some ('' 1  Main'' @ [CHR 0xA0, CHR 0x09] @ ''St  '')) = ''1 Main St''
   \<and> normalize_address (Some ''1 Main St'') = ''1 Main St''
   \<and> Suc 1 < length ''1 Main St'' \<and> isspace (''1 Main St'' ! 1)
   \<and> ''1 Main St'' ! 1 = CHR '' '' \<and> \<not> isspace (''1 Main St'' ! Suc 1)"
proof -
  have e: "normalize_address (Some ('' 1  Main'' @ [CHR 0xA0, CHR 0x09] @ ''St  '')) = ''1 Main St''"
    by (simp add: normalize_address_def strip_def strip_where_def isspace_def)
  have h: "Suc 1 < length ''1 Main St'' \<and> isspace (''1 Main St'' ! 1)"
    by (simp add: isspace_def)
  note t = normalize_address_idempotent [of "Some ('' 1  Main'' @ [CHR 0xA0, CHR 0x09] @ ''St  '')",
      unfolded e]
  from t have i: "normalize_address (Some ''1 Main St'') = ''1 Main St''"
    by (rule conjunct1)
  from t have "\<forall>i. Suc i < length ''1 Main St'' \<and> isspace (''1 Main St'' ! i)
         \<longrightarrow> ''1 Main St'' ! i = CHR '' '' \<and> \<not> isspace (''1 Main St'' ! Suc i)"
    by (elim conjE)
  then have "Suc 1 < length ''1 Main St'' \<and> isspace (''1 Main St'' ! 1)
         \<longrightarrow> ''1 Main St'' ! 1 = CHR '' '' \<and> \<not> isspace (''1 Main St'' ! Suc 1)"
    by (rule spec)
  with h have "''1 Main St'' ! 1 = CHR '' '' \<and> \<not> isspace (''1 Main St'' ! Suc 1)"
    by (rule rev_mp)
  with e i h show ?thesis by blast
qed



text \<open>The text \<open>"$X - $Y"\<close>.\<close>

definition range_text :: "string \<Rightarrow> string \<Rightarrow> string" where
  "range_text X Y = ''$'' @ X @ '' - $'' @ Y"



lemma takeWhile_run: "list_all P xs \<Longrightarrow> r = [] \<or> \<not> P (hd r) \<Longrightarrow> takeWhile P (xs @ r) = xs"
  by (cases r) (auto simp: list_all_iff takeWhile_append2)

lemma dropWhile_run: "list_all P xs \<Longrightarrow> r = [] \<or> \<not> P (hd r) \<Longrightarrow> dropWhile P (xs @ r) = r"
  by (cases r) (auto simp: list_all_iff dropWhile_append2)














section \<open>parsers.py: the full-text price scanner\<close>

definition digit_or_comma :: "char \<Rightarrow> bool" where
  "digit_or_comma c = (is_digit c \<or> c = CHR '','')"

text \<open>
  \<open>_PRICE_RX\<close> is \<open>\$\s*\d[\d,]*(?:\s*-\s*\$\s*\d[\d,]*)?\<close>. Each of its pieces starts
  with characters the piece before cannot take, so the greedy match never has to give
  characters back; the match at the head of a string is read off from left to right.
  \<open>amount_at\<close> is the match of \<open>\$\s*\d[\d,]*\<close> at the head of a string, with the rest
  of the string.
\<close>

definition amount_at :: "string \<Rightarrow> (string \<times> string) option" where
  "amount_at s =
     (case s of
        [] \<Rightarrow> None
      | c # r \<Rightarrow>
          if c \<noteq> CHR ''$'' then None
          else (case dropWhile isspace r of
                  [] \<Rightarrow> None
                | d # r2 \<Rightarrow>
                    if \<not> is_digit d then None
                    else Some (c # takeWhile isspace r @ d # takeWhile digit_or_comma r2,
                               dropWhile digit_or_comma r2)))"

text \<open>The optional group \<open>\s*-\s*\$\s*\d[\d,]*\<close> at the head of a string.\<close>

definition range_tail_at :: "string \<Rightarrow> (string \<times> string) option" where
  "range_tail_at s =
     (case dropWhile isspace s of
        [] \<Rightarrow> None
      | c # r1 \<Rightarrow>
          if c \<noteq> CHR ''-'' then None
          else (case amount_at (dropWhile isspace r1) of
                  None \<Rightarrow> None
                | Some (m, rest) \<Rightarrow>
                    Some (takeWhile isspace s @ c # takeWhile isspace r1 @ m, rest)))"

definition price_rx_at :: "string \<Rightarrow> (string \<times> string) option" where
  "price_rx_at s =
     (case amount_at s of
        None \<Rightarrow> None
      | Some (m, r) \<Rightarrow>
          (case range_tail_at r of
             None \<Rightarrow> Some (m, r)
           | Some (m2, r2) \<Rightarrow> Some (m @ m2, r2)))"

lemma amount_at_shorter: "amount_at s = Some (m, rest) \<Longrightarrow> length rest < length s"
proof -
  assume a: "amount_at s = Some (m, rest)"
  then obtain c r d r2 where s: "s = c # r" and r: "dropWhile isspace r = d # r2"
    and rest: "rest = dropWhile digit_or_comma r2"
    by (auto simp: amount_at_def split: list.splits if_splits)
  have "length rest \<le> length r2"
    unfolding rest by (rule length_dropWhile_le)
  moreover have "length (d # r2) \<le> length r"
    unfolding r [symmetric] by (rule length_dropWhile_le)
  ultimately show ?thesis by (simp add: s)
qed

lemma range_tail_at_shorter: "range_tail_at s = Some (m, rest) \<Longrightarrow> length rest < length s"
proof -
  assume a: "range_tail_at s = Some (m, rest)"
  then obtain c r1 m' where r: "dropWhile isspace s = c # r1"
    and m: "amount_at (dropWhile isspace r1) = Some (m', rest)"
    by (auto simp: range_tail_at_def split: list.splits if_splits option.splits)
  from amount_at_shorter [OF m] have "length rest < length (dropWhile isspace r1)" .
  moreover have "length (dropWhile isspace r1) \<le> length r1"
    by (rule length_dropWhile_le)
  moreover have "length (c # r1) \<le> length s"
    unfolding r [symmetric] by (rule length_dropWhile_le)
  ultimately show ?thesis by simp
qed

lemma price_rx_at_shorter: "price_rx_at s = Some (m, rest) \<Longrightarrow> length rest < length s"
  using amount_at_shorter range_tail_at_shorter
  by (fastforce simp: price_rx_at_def split: option.splits prod.splits)

text \<open>\<open>_PRICE_RX.finditer(text)\<close>: the matched texts from left to right; after a match
  the search goes on behind it, without a match one character further.\<close>

function finditer_price :: "string \<Rightarrow> string list" where
  "finditer_price [] = []"
| "finditer_price (c # cs) =
     (case price_rx_at (c # cs) of
        None \<Rightarrow> finditer_price cs
      | Some (m, rest) \<Rightarrow> m # finditer_price rest)"
  by pat_completeness auto
termination
proof (relation "measure length")
  show "wf (measure length)" by simp
next
  fix c :: char and cs
  show "(cs, c # cs) \<in> measure length" by simp
next
  fix c :: char and cs x2 x y
  assume "price_rx_at (c # cs) = Some x2" and "(x, y) = x2"
  then have "price_rx_at (c # cs) = Some (x, y)" by simp
  from price_rx_at_shorter [OF this] show "(y, c # cs) \<in> measure length" by simp
qed

text \<open>The body of the loop of \<open>_prices_from_text\<close> for one match \<open>raw\<close>: the value it
  appends to \<open>vals\<close>, if any.\<close>

definition price_of_match :: "string \<Rightarrow> int option" where
  "price_of_match raw =
     (let part = (if CHR ''-'' \<in> set raw then takeWhile (\<lambda>c. c \<noteq> CHR ''-'') raw else raw);
          digits = filter is_digit part
      in if digits \<noteq> []
         then (let v = int (nat_of_digits digits) in if is_plausible_rent v then Some v else None)
         else None)"

definition prices_from_text :: "string option \<Rightarrow> int list" where
  "prices_from_text text =
     List.map_filter price_of_match (finditer_price (case text of None \<Rightarrow> [] | Some t \<Rightarrow> t))"

section \<open>Properties of the price scanner\<close>

text \<open>An amount as the pattern reads it behind the dollar sign, \<open>\d[\d,]*\<close>.\<close>

definition is_amount :: "string \<Rightarrow> bool" where
  "is_amount X = (X \<noteq> [] \<and> is_digit (hd X) \<and> list_all digit_or_comma X)"

lemma digit_not_space: "is_digit c \<Longrightarrow> \<not> isspace c"
  by (auto simp: is_digit_def isspace_def)

lemma digit_or_comma_plain:
  "digit_or_comma c \<Longrightarrow> c \<noteq> CHR ''-'' \<and> c \<noteq> CHR ''$'' \<and> c \<noteq> CHR '' ''"
  by (auto simp: digit_or_comma_def is_digit_def)

lemma amount_at_amount:
  assumes "is_amount X" and "r = [] \<or> \<not> digit_or_comma (hd r)"
  shows "amount_at (''$'' @ X @ r) = Some (''$'' @ X, r)"
proof -
  from assms(1) obtain d X' where X: "X = d # X'" and d: "is_digit d"
    and X': "list_all digit_or_comma X'"
    by (cases X) (auto simp: is_amount_def)
  from d have sp: "\<not> isspace d" by (rule digit_not_space)
  from X' assms(2) have t: "takeWhile digit_or_comma (X' @ r) = X'"
    and dr: "dropWhile digit_or_comma (X' @ r) = r"
    by (auto intro: takeWhile_run dropWhile_run)
  show ?thesis
    by (simp add: amount_at_def X sp d t dr)
qed

lemma range_tail_at_amount:
  assumes "is_amount Y"
  shows "range_tail_at ('' - $'' @ Y) = Some ('' - $'' @ Y, [])"
proof -
  have "amount_at (''$'' @ Y @ []) = Some (''$'' @ Y, [])"
    using assms by (intro amount_at_amount) simp_all
  then have a: "amount_at (CHR ''$'' # Y) = Some (CHR ''$'' # Y, [])" by simp
  show ?thesis
    by (simp add: range_tail_at_def isspace_def a)
qed

lemma price_rx_at_range:
  assumes "is_amount X" and "is_amount Y"
  shows "price_rx_at (range_text X Y) = Some (range_text X Y, [])"
proof -
  have "amount_at (''$'' @ X @ ('' - $'' @ Y)) = Some (''$'' @ X, '' - $'' @ Y)"
    using assms(1) by (intro amount_at_amount) (simp_all add: digit_or_comma_def is_digit_def)
  then show ?thesis
    using range_tail_at_amount [OF assms(2)]
    by (simp add: price_rx_at_def range_text_def)
qed

lemma finditer_price_range:
  assumes "is_amount X" and "is_amount Y"
  shows "finditer_price (range_text X Y) = [range_text X Y]"
proof -
  have "range_text X Y = CHR ''$'' # X @ '' - $'' @ Y"
    by (simp add: range_text_def)
  then obtain cs where cs: "range_text X Y = CHR ''$'' # cs" by blast
  have "finditer_price (CHR ''$'' # cs) =
      (case price_rx_at (CHR ''$'' # cs) of
         None \<Rightarrow> finditer_price cs
       | Some (m, rest) \<Rightarrow> m # finditer_price rest)"
    by (rule finditer_price.simps)
  then have "finditer_price (range_text X Y) =
      (case price_rx_at (range_text X Y) of
         None \<Rightarrow> finditer_price cs
       | Some (m, rest) \<Rightarrow> m # finditer_price rest)"
    unfolding cs [symmetric] .
  then show ?thesis
    unfolding price_rx_at_range [OF assms] by simp
qed

lemma price_of_match_lower:
  "CHR ''-'' \<notin> set a \<Longrightarrow> price_of_match (a @ CHR ''-'' # b) = price_of_match a"
proof -
  assume a: "CHR ''-'' \<notin> set a"
  then have "takeWhile (\<lambda>c. c \<noteq> CHR ''-'') (a @ CHR ''-'' # b) = a"
    by (induction a) auto
  with a show ?thesis by (simp add: price_of_match_def)
qed

lemma price_of_match_plausible: "price_of_match raw = Some v \<Longrightarrow> is_plausible_rent v"
  by (auto simp: price_of_match_def Let_def split: if_splits)

lemma price_of_match_dollar:
  "price_of_match (''$'' @ X @ '' '') = price_of_match X" if "is_amount X"
proof -
  from that have "\<forall>c \<in> set X. c \<noteq> CHR ''-''"
    using digit_or_comma_plain by (auto simp: is_amount_def list_all_iff)
  then have "CHR ''-'' \<notin> set X" by blast
  then show ?thesis
    by (simp add: price_of_match_def is_digit_def)
qed

text \<open>
  C9. Every value \<open>_prices_from_text\<close> returns lies in the plausible range
  \<open>[300, 6000]\<close>. Of a match that holds a dash only the part before the dash counts:
  a range \<open>"$X - $Y"\<close> is one match and gives the value of \<open>X\<close> when that is plausible
  and nothing otherwise, whatever \<open>Y\<close> is. So \<open>"$1,499 - $1,549"\<close> gives 1499 here,
  while \<open>normalize_price\<close> gives the mean 1524.
\<close>

theorem prices_from_text_plausible_lower_bound:
  "(\<forall>v \<in> set (prices_from_text text). 300 \<le> v \<and> v \<le> 6000)
   \<and> (CHR ''-'' \<notin> set a \<longrightarrow> price_of_match (a @ CHR ''-'' # b) = price_of_match a)
   \<and> (is_amount X \<and> is_amount Y \<longrightarrow>
        finditer_price (range_text X Y) = [range_text X Y]
        \<and> prices_from_text (Some (range_text X Y))
            = (if is_plausible_rent (int (nat_of_digits (filter is_digit X)))
               then [int (nat_of_digits (filter is_digit X))] else []))
   \<and> prices_from_text (Some ''$1,499 - $1,549'') = [1499]
   \<and> normalize_price (Some ''$1,499 - $1,549'') = Some 1524"
proof -
  have a: "\<forall>v \<in> set (prices_from_text text). 300 \<le> v \<and> v \<le> 6000"
    using price_of_match_plausible
    by (auto simp: prices_from_text_def List.map_filter_def is_plausible_rent_def)
  have b: "prices_from_text (Some (range_text X Y))
            = (if is_plausible_rent (int (nat_of_digits (filter is_digit X)))
               then [int (nat_of_digits (filter is_digit X))] else [])"
    if x: "is_amount X" and y: "is_amount Y" for X Y
  proof -
    from x have nd: "CHR ''-'' \<notin> set X"
      using digit_or_comma_plain by (auto simp: is_amount_def list_all_iff)
    have "range_text X Y = (''$'' @ X @ '' '') @ CHR ''-'' # '' $'' @ Y"
      by (simp add: range_text_def)
    then have "price_of_match (range_text X Y) = price_of_match (''$'' @ X @ '' '')"
      using nd price_of_match_lower [of "''$'' @ X @ '' ''" "'' $'' @ Y"] by simp
    also have "\<dots> = price_of_match X"
      using x by (rule price_of_match_dollar)
    finally have p: "price_of_match (range_text X Y) = price_of_match X" .
    from x have "filter is_digit X \<noteq> []"
      by (cases X) (auto simp: is_amount_def)
    with nd have "price_of_match X
        = (if is_plausible_rent (int (nat_of_digits (filter is_digit X)))
           then Some (int (nat_of_digits (filter is_digit X))) else None)"
      by (simp add: price_of_match_def)
    with p show ?thesis
      by (simp add: prices_from_text_def finditer_price_range [OF x y] List.map_filter_def)
  qed
  have c: "prices_from_text (Some ''$1,499 - $1,549'') = [1499]"
    using b [of "''1,499''" "''1,549''"]
    by (simp add: range_text_def is_amount_def digit_or_comma_def is_digit_def
        nat_of_digits_def digit_val_def is_plausible_rent_def)
  have d: "normalize_price (Some ''$1,499 - $1,549'') = Some 1524"
    by (simp add: normalize_price_def number_at_def is_digit_def float_of_str_def
        nat_of_digits_def digit_val_def py_round_def Let_def)
  from a b c d price_of_match_lower finditer_price_range show ?thesis by blast
qed

theorem prices_from_text_plausible_lower_bound_witness:
  "prices_from_text (Some ''Rent $1,499 - $7,549 / month, deposit $250'') = [1499]
   \<and> 300 \<le> (1499 :: int) \<and> (1499 :: int) \<le> 6000
   \<and> CHR ''-'' \<notin> set ''$1,499 ''
   \<and> price_of_match (''$1,499 '' @ CHR ''-'' # '' $7,549'') = Some 1499
   \<and> is_amount ''1,499'' \<and> is_amount ''7,549''
   \<and> finditer_price (range_text ''1,499'' ''7,549'') = [range_text ''1,499'' ''7,549'']
   \<and> prices_from_text (Some (range_text ''1,499'' ''7,549'')) = [1499]"
proof -
  have e: "prices_from_text (Some ''Rent $1,499 - $7,549 / month, deposit $250'') = [1499]"
    by (simp add: prices_from_text_def price_rx_at_def amount_at_def range_tail_at_def
        isspace_def is_digit_def digit_or_comma_def List.map_filter_def price_of_match_def
        nat_of_digits_def digit_val_def is_plausible_rent_def)
  have h1: "CHR ''-'' \<notin> set ''$1,499 ''"
    by simp
  have p: "price_of_match ''$1,499 '' = Some 1499"
    by (simp add: price_of_match_def is_digit_def nat_of_digits_def digit_val_def
        is_plausible_rent_def)
  have h2: "is_amount ''1,499''" and h3: "is_amount ''7,549''"
    by (simp_all add: is_amount_def digit_or_comma_def is_digit_def)
  have v: "int (nat_of_digits (filter is_digit ''1,499'')) = 1499"
    by (simp add: is_digit_def nat_of_digits_def digit_val_def)
  note t = prices_from_text_plausible_lower_bound
    [of "Some ''Rent $1,499 - $7,549 / month, deposit $250''" "''$1,499 ''" "'' $7,549''"
      "''1,499''" "''7,549''"]
  from t have "\<forall>v \<in> set (prices_from_text (Some ''Rent $1,499 - $7,549 / month, deposit $250'')).
      300 \<le> v \<and> v \<le> 6000"
    by (rule conjunct1)
  then have r: "300 \<le> (1499 :: int) \<and> (1499 :: int) \<le> 6000"
    unfolding e by simp
  from t h1 have "price_of_match (''$1,499 '' @ CHR ''-'' # '' $7,549'') = price_of_match ''$1,499 ''"
    by blast
  with p have m: "price_of_match (''$1,499 '' @ CHR ''-'' # '' $7,549'') = Some 1499"
    by simp
  from t h2 h3 have f: "finditer_price (range_text ''1,499'' ''7,549'') = [range_text ''1,499'' ''7,549'']"
    and "prices_from_text (Some (range_text ''1,499'' ''7,549''))
            = (if is_plausible_rent (int (nat_of_digits (filter is_digit ''1,499'')))
               then [int (nat_of_digits (filter is_digit ''1,499''))] else [])"
    by blast+
  then have g: "prices_from_text (Some (range_text ''1,499'' ''7,549'')) = [1499]"
    unfolding v by (simp add: is_plausible_rent_def)
  from e r h1 m h2 h3 f g show ?thesis by blast
qed

section \<open>parsers.py: the Granite strategy\<close>

text \<open>\<open>_parse_baths(text)\<close>: the fraction glyphs \<open>0xBD\<close> (one half), \<open>0xBC\<close> (one
  quarter) and \<open>0xBE\<close> (three quarters) become decimals; then
  \<open>re.search(r'(\d+(?:\.\d+)?)\s*(?:Bath|BA|bathroom)', text, re.I)\<close> looks for the
  leftmost position where a number stands that is followed, after any whitespace, by
  the letters \<open>ba\<close> in either case (each of the three words starts with them).\<close>

definition unfraction :: "string \<Rightarrow> string" where
  "unfraction s =
     concat (map (\<lambda>c. if c = CHR 0xBD then ''.5''
                       else if c = CHR 0xBC then ''.25''
                       else if c = CHR 0xBE then ''.75'' else [c]) s)"

fun baths_search :: "string \<Rightarrow> string option" where
  "baths_search [] = None"
| "baths_search (c # cs) =
     (if is_digit c \<and> prefix ''ba'' (lower (dropWhile isspace (snd (number_at (c # cs)))))
      then Some (fst (number_at (c # cs)))
      else baths_search cs)"

definition parse_baths :: "string \<Rightarrow> real" where
  "parse_baths text =
     (case baths_search (unfraction text) of
        Some m \<Rightarrow> float_of_str m
      | None \<Rightarrow> 0)"

text \<open>
  \<open>re.search(r'(?:^|[,\s])(\d+)\s*Beds?(?:[,\s]|$)', txt, re.I)\<close>. \<open>beds_at\<close> is the match
  of \<open>(\d+)\s*Beds?(?:[,\s]|$)\<close> at the head of a string, giving the digits; the search
  tries it at the start of the text and behind every comma or whitespace character,
  from left to right.
\<close>

definition is_sep :: "char \<Rightarrow> bool" where
  "is_sep c = (c = CHR '','' \<or> isspace c)"

definition ends_word :: "string \<Rightarrow> bool" where
  "ends_word r = (case r of [] \<Rightarrow> True | c # _ \<Rightarrow> is_sep c)"

definition beds_at :: "string \<Rightarrow> string option" where
  "beds_at s =
     (let ds = takeWhile is_digit s;
          r = dropWhile isspace (dropWhile is_digit s);
          r' = drop 3 r
      in if ds \<noteq> [] \<and> lower (take 3 r) = ''bed''
            \<and> ((r' \<noteq> [] \<and> lower_char (hd r') = CHR ''s'' \<and> ends_word (tl r')) \<or> ends_word r')
         then Some ds else None)"

fun beds_behind_sep :: "string \<Rightarrow> string option" where
  "beds_behind_sep [] = None"
| "beds_behind_sep (c # cs) =
     (if is_sep c
      then (case beds_at cs of Some ds \<Rightarrow> Some ds | None \<Rightarrow> beds_behind_sep cs)
      else beds_behind_sep cs)"

definition beds_search :: "string \<Rightarrow> string option" where
  "beds_search txt =
     (case beds_at txt of Some ds \<Rightarrow> Some ds | None \<Rightarrow> beds_behind_sep txt)"

text \<open>\<open>re.search(r'\$\s*([\d,]+)\s*/\s*month', txt)\<close>: the group of digits and commas of
  the leftmost match.\<close>

definition month_price_at :: "string \<Rightarrow> string option" where
  "month_price_at s =
     (case s of
        [] \<Rightarrow> None
      | c # r \<Rightarrow>
          if c \<noteq> CHR ''$'' then None
          else
            let r1 = dropWhile isspace r;
                g = takeWhile digit_or_comma r1;
                r2 = dropWhile isspace (dropWhile digit_or_comma r1)
            in if g = [] then None
               else (case r2 of
                       [] \<Rightarrow> None
                     | sl # r3 \<Rightarrow>
                         if sl = CHR ''/'' \<and> prefix ''month'' (dropWhile isspace r3) then Some g
                         else None))"

fun month_price_search :: "string \<Rightarrow> string option" where
  "month_price_search [] = None"
| "month_price_search (c # cs) =
     (case month_price_at (c # cs) of
        Some g \<Rightarrow> Some g
      | None \<Rightarrow> month_price_search cs)"

text \<open>An exception that leaves the parser: \<open>int('')\<close> raises \<open>ValueError\<close>.\<close>

datatype py_error = ValueError

text \<open>
  One round of the loop of \<open>parse_granite\<close> over the listing containers, on the visible
  text \<open>txt\<close> of the container: \<open>Inr None\<close> when the round ends without a record (a
  \<open>continue\<close>, or \<open>_mk_record\<close> gave \<open>None\<close>), \<open>Inr (Some rec)\<close> when it appends \<open>rec\<close>,
  \<open>Inl\<close> when it raises. \<open>addr\<close> is the address \<open>_extract_address\<close> found for the page.
\<close>

definition granite_item ::
  "(real \<Rightarrow> string) \<Rightarrow> string \<Rightarrow> string \<Rightarrow> string \<Rightarrow> string \<Rightarrow> py_error + listing option" where
  "granite_item sf now u addr txt =
     (if py_in ''not available'' (lower txt) \<and> py_in ''early inquiry'' (lower txt) then Inr None
      else
        let first_line = takeWhile (\<lambda>c. c \<noteq> CHR 0x0A) txt;
            ttl = (if first_line \<noteq> [] then first_line else ''Granite Property'');
            bd = (case beds_search txt of Some ds \<Rightarrow> int (nat_of_digits ds) | None \<Rightarrow> 0);
            bd = (if py_in ''studio'' (lower txt) then 0 else bd);
            bt = parse_baths txt
        in (case month_price_search txt of
              None \<Rightarrow> Inr None
            | Some g \<Rightarrow>
                let digits = filter (\<lambda>c. c \<noteq> CHR '','') g in
                if digits = [] then Inl ValueError
                else Inr (mk_record sf now u ''Granite Student Living'' ttl
                            (PyInt (int (nat_of_digits digits))) (PyInt bd) (PyFloat bt)
                            (Some addr))))"

text \<open>\<open>parse_granite\<close> on the texts of the containers of a page, in document order: the
  records appended, unless a round raises.\<close>

fun parse_granite ::
  "(real \<Rightarrow> string) \<Rightarrow> string \<Rightarrow> string \<Rightarrow> string \<Rightarrow> string list \<Rightarrow> py_error + listing list" where
  "parse_granite sf now u addr [] = Inr []"
| "parse_granite sf now u addr (txt # txts) =
     (case granite_item sf now u addr txt of
        Inl e \<Rightarrow> Inl e
      | Inr r \<Rightarrow>
          (case parse_granite sf now u addr txts of
             Inl e \<Rightarrow> Inl e
           | Inr rs \<Rightarrow> Inr (case r of None \<Rightarrow> rs | Some x \<Rightarrow> x # rs)))"

section \<open>Properties of the record assembler\<close>

lemma mk_record_price_in_range:
  "mk_record sf now u co ttl pr bd bt addr = Some r
     \<Longrightarrow> \<exists>w. price r = Some w \<and> 300 \<le> w \<and> w \<le> 6000"
  by (auto simp: mk_record_def is_plausible_rent_def Let_def split: if_splits option.splits)

lemma granite_item_price_in_range:
  "granite_item sf now u addr txt = Inr (Some r)
     \<Longrightarrow> \<exists>w. price r = Some w \<and> 300 \<le> w \<and> w \<le> 6000"
  by (auto simp: granite_item_def Let_def split: if_splits option.splits
      dest: mk_record_price_in_range)

lemma parse_granite_prices_in_range:
  "parse_granite sf now u addr txts = Inr rs
     \<Longrightarrow> \<forall>r \<in> set rs. \<exists>w. price r = Some w \<and> 300 \<le> w \<and> w \<le> 6000"
proof (induction txts arbitrary: rs)
  case Nil
  then show ?case by simp
next
  case (Cons first txts)
  from Cons.prems obtain x rs' where x: "granite_item sf now u addr first = Inr x"
    and rs': "parse_granite sf now u addr txts = Inr rs'"
    and rs: "rs = (case x of None \<Rightarrow> rs' | Some y \<Rightarrow> y # rs')"
    by (auto split: sum.splits)
  from Cons.IH [OF rs'] have t: "\<forall>r \<in> set rs'. \<exists>w. price r = Some w \<and> 300 \<le> w \<and> w \<le> 6000" .
  show ?case
  proof (cases x)
    case None
    with rs t show ?thesis by simp
  next
    case (Some y)
    with x have "\<exists>w. price y = Some w \<and> 300 \<le> w \<and> w \<le> 6000"
      by (auto dest: granite_item_price_in_range)
    with Some rs t show ?thesis by simp
  qed
qed

text \<open>The Granite strategy on the text of one container.\<close>

lemma granite_item_demo:
  "granite_item (\<lambda>x. ''1.5'') ''11-03-2026'' ''https://g.com/l'' ''1 Main St''
        ''Unit 8, 2 Beds, 1.5 Bath $1,200 / month''
     = Inr (Some \<lparr>url = ''https://g.com/l'', company = ''Granite Student Living'',
              title = Some ''Unit 8, 2 Beds, 1.5 Bath $1,200 / month'',
              price = Some 1200, beds = Some 2, baths = Some (3 / 2),
              address = Some ''1 Main St'', last_scraped_at = ''11-03-2026''\<rparr>)"
proof -
  have lu: "lower ''Unit 8, 2 Beds, 1.5 Bath $1,200 / month''
      = ''unit 8, 2 beds, 1.5 bath $1,200 / month''"
    by (simp add: lower_def lower_char_def is_upper_def)
  have bd: "beds_search ''Unit 8, 2 Beds, 1.5 Bath $1,200 / month'' = Some ''2''"
    by (simp add: beds_search_def beds_at_def is_sep_def ends_word_def isspace_def is_digit_def
        lower_def lower_char_def is_upper_def Let_def)
  have bt: "parse_baths ''Unit 8, 2 Beds, 1.5 Bath $1,200 / month'' = 3 / 2"
    by (simp add: parse_baths_def unfraction_def number_at_def isspace_def is_digit_def
        lower_def lower_char_def is_upper_def float_of_str_def nat_of_digits_def digit_val_def
        Let_def)
  have pr: "month_price_search ''Unit 8, 2 Beds, 1.5 Bath $1,200 / month'' = Some ''1,200''"
    by (simp add: month_price_at_def digit_or_comma_def isspace_def is_digit_def Let_def)
  show ?thesis
    unfolding granite_item_def lu bd bt pr Let_def
    by (simp add: mk_record_def is_plausible_rent_def normalize_beds_def normalize_baths_def
        normalize_address_def py_str_def str_int_def str_nat.simps digit_char_def strip_def
        strip_where_def isspace_def lower_def lower_char_def is_upper_def search_digits_def
        search_number_def number_at_def is_digit_def float_of_str_def nat_of_digits_def
        digit_val_def Let_def)
qed

text \<open>
  C1. The plausibility gate: \<open>_mk_record\<close> returns no record when the price argument
  is \<open>None\<close>, when it normalizes to nothing, and when its integer value lies outside
  \<open>[300, 6000]\<close>; every record it does return carries a price inside that range. In
  particular the prices 250 and 7000 give no record, whatever the other arguments are.
  A parser that builds its records through \<open>_mk_record\<close>, as the Granite strategy does,
  returns only records with a price in the range.
\<close>

theorem mk_record_plausibility_gate:
  "mk_record sf now u co ttl PyNone bd bt addr = None
   \<and> mk_record sf now u co ttl (PyInt 250) bd bt addr = None
   \<and> mk_record sf now u co ttl (PyInt 7000) bd bt addr = None
   \<and> ((v < 300 \<or> 6000 < v) \<longrightarrow> mk_record sf now u co ttl (PyInt v) bd bt addr = None)
   \<and> ((normalize_price (Some s) = None \<or> (\<exists>w. normalize_price (Some s) = Some w \<and> (w < 300 \<or> 6000 < w)))
        \<longrightarrow> mk_record sf now u co ttl (PyStr s) bd bt addr = None)
   \<and> (mk_record sf now u co ttl pr bd bt addr = Some r
        \<longrightarrow> (\<exists>w. price r = Some w \<and> 300 \<le> w \<and> w \<le> 6000))
   \<and> (parse_granite sf now u page_addr txts = Inr rs
        \<longrightarrow> (\<forall>x \<in> set rs. \<exists>w. price x = Some w \<and> 300 \<le> w \<and> w \<le> 6000))"
proof -
  have a: "mk_record sf now u co ttl PyNone bd bt addr = None"
    by (simp add: mk_record_def)
  have b: "\<And>v. v < 300 \<or> 6000 < v \<Longrightarrow> mk_record sf now u co ttl (PyInt v) bd bt addr = None"
    by (auto simp: mk_record_def is_plausible_rent_def)
  have c: "normalize_price (Some s) = None \<or> (\<exists>w. normalize_price (Some s) = Some w \<and> (w < 300 \<or> 6000 < w))
        \<Longrightarrow> mk_record sf now u co ttl (PyStr s) bd bt addr = None"
    by (auto simp: mk_record_def is_plausible_rent_def py_str_def)
  note d = mk_record_price_in_range [of sf now u co ttl pr bd bt addr r]
  note e = parse_granite_prices_in_range [of sf now u page_addr txts rs]
  from a b [of 250] b [of 7000] b [of v] c d e show ?thesis by simp
qed

theorem mk_record_plausibility_gate_witness:
  "mk_record (\<lambda>x. ''1.5'') ''11-03-2026'' ''https://g.com/l'' ''Test Co'' ''A1''
      (PyInt 299) (PyInt 2) (PyStr ''1.5 ba'') (Some ''1 Main  St '') = None
   \<and> normalize_price (Some ''$6,500'') = Some 6500
   \<and> mk_record (\<lambda>x. ''1.5'') ''11-03-2026'' ''https://g.com/l'' ''Test Co'' ''A1''
      (PyStr ''$6,500'') (PyInt 2) (PyStr ''1.5 ba'') (Some ''1 Main  St '') = None
   \<and> mk_record (\<lambda>x. ''1.5'') ''11-03-2026'' ''https://g.com/l'' ''Test Co'' ''A1''
      (PyInt 1200) (PyInt 2) (PyStr ''1.5 ba'') (Some ''1 Main  St '')
     = Some \<lparr>url = ''https://g.com/l'', company = ''Test Co'', title = Some ''A1'',
              price = Some 1200, beds = Some 2, baths = Some (3 / 2),
              address = Some ''1 Main St'', last_scraped_at = ''11-03-2026''\<rparr>
   \<and> (\<exists>w. Some (1200 :: int) = Some w \<and> 300 \<le> w \<and> w \<le> 6000)
   \<and> parse_granite (\<lambda>x. ''1.5'') ''11-03-2026'' ''https://g.com/l'' ''1 Main St''
        [''Unit 8, 2 Beds, 1.5 Bath $1,200 / month'']
     = Inr [\<lparr>url = ''https://g.com/l'', company = ''Granite Student Living'',
              title = Some ''Unit 8, 2 Beds, 1.5 Bath $1,200 / month'',
              price = Some 1200, beds = Some 2, baths = Some (3 / 2),
              address = Some ''1 Main St'', last_scraped_at = ''11-03-2026''\<rparr>]"
proof -
  have n: "normalize_price (Some ''$6,500'') = Some 6500"
    by (simp add: normalize_price_def number_at_def is_digit_def float_of_str_def
        nat_of_digits_def digit_val_def py_round_def Let_def)
  have r: "mk_record (\<lambda>x. ''1.5'') ''11-03-2026'' ''https://g.com/l'' ''Test Co'' ''A1''
      (PyInt 1200) (PyInt 2) (PyStr ''1.5 ba'') (Some ''1 Main  St '')
     = Some \<lparr>url = ''https://g.com/l'', company = ''Test Co'', title = Some ''A1'',
              price = Some 1200, beds = Some 2, baths = Some (3 / 2),
              address = Some ''1 Main St'', last_scraped_at = ''11-03-2026''\<rparr>"
    by (simp add: mk_record_def is_plausible_rent_def normalize_beds_def normalize_baths_def
        normalize_address_def py_str_def str_int_def str_nat.simps digit_char_def strip_def
        strip_where_def isspace_def lower_def lower_char_def is_upper_def search_digits_def
        search_number_def number_at_def is_digit_def float_of_str_def nat_of_digits_def
        digit_val_def Let_def)
  have g: "parse_granite (\<lambda>x. ''1.5'') ''11-03-2026'' ''https://g.com/l'' ''1 Main St''
        [''Unit 8, 2 Beds, 1.5 Bath $1,200 / month'']
     = Inr [\<lparr>url = ''https://g.com/l'', company = ''Granite Student Living'',
              title = Some ''Unit 8, 2 Beds, 1.5 Bath $1,200 / month'',
              price = Some 1200, beds = Some 2, baths = Some (3 / 2),
              address = Some ''1 Main St'', last_scraped_at = ''11-03-2026''\<rparr>]"
    by (simp add: granite_item_demo)
  show ?thesis
    using n r g
      mk_record_plausibility_gate [of "\<lambda>x. ''1.5''" "''11-03-2026''" "''https://g.com/l''"
        "''Test Co''" "''A1''" "PyInt 2" "PyStr ''1.5 ba''" "Some ''1 Main  St ''" 299 "''$6,500''"
        "PyInt 1200"
        "\<lparr>url = ''https://g.com/l'', company = ''Test Co'', title = Some ''A1'',
              price = Some 1200, beds = Some 2, baths = Some (3 / 2),
              address = Some ''1 Main St'', last_scraped_at = ''11-03-2026''\<rparr>"
        "''1 Main St''" "[''Unit 8, 2 Beds, 1.5 Bath $1,200 / month'']"
        "[\<lparr>url = ''https://g.com/l'', company = ''Granite Student Living'',
              title = Some ''Unit 8, 2 Beds, 1.5 Bath $1,200 / month'',
              price = Some 1200, beds = Some 2, baths = Some (3 / 2),
              address = Some ''1 Main St'', last_scraped_at = ''11-03-2026''\<rparr>]"]
    by simp
qed

section \<open>Properties of the Granite strategy\<close>

text \<open>
  C8. The skip rule for unreleased listings: a container whose text holds both
  \<open>not available\<close> and \<open>early inquiry\<close>, in any case, is skipped by the Granite strategy
  and yields no record: the page gives the records it would give without the container.
  The texts that hold \<open>studio\<close> as well are among them; the test of the code does not
  look at that word.
\<close>

theorem granite_skips_unreleased:
  "py_in ''not available'' (lower txt) \<and> py_in ''early inquiry'' (lower txt) \<longrightarrow>
     granite_item sf now u addr txt = Inr None
     \<and> parse_granite sf now u addr (pre @ txt # post) = parse_granite sf now u addr (pre @ post)"
proof
  assume h: "py_in ''not available'' (lower txt) \<and> py_in ''early inquiry'' (lower txt)"
  then have i: "granite_item sf now u addr txt = Inr None"
    by (simp add: granite_item_def)
  have "parse_granite sf now u addr (pre @ txt # post) = parse_granite sf now u addr (pre @ post)"
  proof (induction pre)
    case Nil
    show ?case by (simp add: i split: sum.splits)
  next
    case (Cons p ps)
    then show ?case by (simp only: append_Cons parse_granite.simps)
  qed
  with i show "granite_item sf now u addr txt = Inr None
     \<and> parse_granite sf now u addr (pre @ txt # post) = parse_granite sf now u addr (pre @ post)"
    by simp
qed

theorem granite_skips_unreleased_witness:
  "py_in ''studio'' (lower ''Studio Early Inquiry List Not Available $900 / month'')
   \<and> py_in ''not available'' (lower ''Studio Early Inquiry List Not Available $900 / month'')
   \<and> py_in ''early inquiry'' (lower ''Studio Early Inquiry List Not Available $900 / month'')
   \<and> granite_item (\<lambda>x. ''1.5'') ''11-03-2026'' ''https://g.com/l'' ''1 Main St''
        ''Studio Early Inquiry List Not Available $900 / month'' = Inr None
   \<and> parse_granite (\<lambda>x. ''1.5'') ''11-03-2026'' ''https://g.com/l'' ''1 Main St''
        [''Unit 8, 2 Beds, 1.5 Bath $1,200 / month'',
         ''Studio Early Inquiry List Not Available $900 / month'']
     = Inr [\<lparr>url = ''https://g.com/l'', company = ''Granite Student Living'',
              title = Some ''Unit 8, 2 Beds, 1.5 Bath $1,200 / month'',
              price = Some 1200, beds = Some 2, baths = Some (3 / 2),
              address = Some ''1 Main St'', last_scraped_at = ''11-03-2026''\<rparr>]"
proof -
  have l: "lower ''Studio Early Inquiry List Not Available $900 / month''
      = ''studio early inquiry list not available $900 / month''"
    by (simp add: lower_def lower_char_def is_upper_def)
  have h0: "py_in ''studio'' (lower ''Studio Early Inquiry List Not Available $900 / month'')"
    and h1: "py_in ''not available'' (lower ''Studio Early Inquiry List Not Available $900 / month'')"
    and h2: "py_in ''early inquiry'' (lower ''Studio Early Inquiry List Not Available $900 / month'')"
    unfolding l by simp_all
  note one = granite_item_demo
  note t = granite_skips_unreleased
    [of "''Studio Early Inquiry List Not Available $900 / month''" "\<lambda>x. ''1.5''" "''11-03-2026''"
      "''https://g.com/l''" "''1 Main St''" "[''Unit 8, 2 Beds, 1.5 Bath $1,200 / month'']" "[]"]
  from t h1 h2 have s: "granite_item (\<lambda>x. ''1.5'') ''11-03-2026'' ''https://g.com/l'' ''1 Main St''
        ''Studio Early Inquiry List Not Available $900 / month'' = Inr None"
    and "parse_granite (\<lambda>x. ''1.5'') ''11-03-2026'' ''https://g.com/l'' ''1 Main St''
        ([''Unit 8, 2 Beds, 1.5 Bath $1,200 / month'']
          @ ''Studio Early Inquiry List Not Available $900 / month'' # [])
      = parse_granite (\<lambda>x. ''1.5'') ''11-03-2026'' ''https://g.com/l'' ''1 Main St''
        ([''Unit 8, 2 Beds, 1.5 Bath $1,200 / month''] @ [])"
    by blast+
  then have p: "parse_granite (\<lambda>x. ''1.5'') ''11-03-2026'' ''https://g.com/l'' ''1 Main St''
        [''Unit 8, 2 Beds, 1.5 Bath $1,200 / month'',
         ''Studio Early Inquiry List Not Available $900 / month'']
     = Inr [\<lparr>url = ''https://g.com/l'', company = ''Granite Student Living'',
              title = Some ''Unit 8, 2 Beds, 1.5 Bath $1,200 / month'',
              price = Some 1200, beds = Some 2, baths = Some (3 / 2),
              address = Some ''1 Main St'', last_scraped_at = ''11-03-2026''\<rparr>]"
    by (simp add: one)
  from h0 h1 h2 s p show ?thesis by blast
qed

section \<open>Properties of the synthetic keys\<close>

text \<open>
  The slug as the specification words it: the title in lower case, each run of
  characters that are not alphanumeric replaced by one hyphen, cut to 60 characters.
\<close>

definition spec_slug :: "string \<Rightarrow> string" where
  "spec_slug s = take 60 (sub_runs (\<lambda>c. \<not> is_slug_char c) (CHR ''-'') (lower s))"

text \<open>Four listings: three units found on one page, two of them alike, and a listing
  with a page of its own.\<close>

definition demo_units :: "listing list" where
  "demo_units =
     [demo_listing\<lparr>url := ''https://x.com/plans'', title := Some ''A1!''\<rparr>,
      demo_listing\<lparr>url := ''https://x.com/plans'', title := Some ''A1!''\<rparr>,
      demo_listing\<lparr>url := ''https://x.com/plans'', title := Some ''B2'', price := Some 1300\<rparr>,
      demo_listing]"

text \<open>The positions of the listings that carry the URL \<open>u\<close>.\<close>

definition rows_of :: "listing list \<Rightarrow> string \<Rightarrow> nat list" where
  "rows_of ls u = filter (\<lambda>i. url (ls ! i) = u) [0..<length ls]"

lemma append_row_known:
  "distinct keys \<Longrightarrow> k \<in> set keys \<Longrightarrow>
     append_row (map (\<lambda>u. (u, f u)) keys) k i
       = map (\<lambda>u. (u, if u = k then f u @ [i] else f u)) keys"
  by (induction keys) auto

lemma append_row_new:
  "k \<notin> set keys \<Longrightarrow>
     append_row (map (\<lambda>u. (u, f u)) keys) k i = map (\<lambda>u. (u, f u)) keys @ [(k, [i])]"
  by (induction keys) auto

lemma group_prefix:
  "n \<le> length ls \<Longrightarrow>
     fold (\<lambda>i d. append_row d (url (ls ! i)) i) [0..<n] []
       = map (\<lambda>u. (u, filter (\<lambda>i. url (ls ! i) = u) [0..<n]))
           (dict_fromkeys (map url (take n ls)))"
proof (induction n)
  case 0
  show ?case by (simp add: dict_fromkeys_Nil)
next
  case (Suc n)
  define keys where "keys = dict_fromkeys (map url (take n ls))"
  define k where "k = url (ls ! n)"
  from Suc.prems have n: "n < length ls" by simp
  then have tk: "map url (take (Suc n) ls) = map url (take n ls) @ [k]"
    by (simp add: take_Suc_conv_app_nth k_def)
  have keys': "dict_fromkeys (map url (take (Suc n) ls)) = (if k \<in> set keys then keys else keys @ [k])"
    unfolding tk keys_def by (rule dict_fromkeys_snoc)
  have dk: "distinct keys"
    unfolding keys_def by (rule distinct_dict_fromkeys)
  have sk: "set keys = url ` set (take n ls)"
    unfolding keys_def by (simp add: set_dict_fromkeys)
  from Suc have IH: "fold (\<lambda>i d. append_row d (url (ls ! i)) i) [0..<n] []
      = map (\<lambda>u. (u, filter (\<lambda>i. url (ls ! i) = u) [0..<n])) keys"
    by (simp add: keys_def)
  have step: "fold (\<lambda>i d. append_row d (url (ls ! i)) i) [0..<Suc n] []
      = append_row (map (\<lambda>u. (u, filter (\<lambda>i. url (ls ! i) = u) [0..<n])) keys) k n"
    by (simp add: IH k_def)
  show ?case
  proof (cases "k \<in> set keys")
    case True
    have "append_row (map (\<lambda>u. (u, filter (\<lambda>i. url (ls ! i) = u) [0..<n])) keys) k n
        = map (\<lambda>u. (u, if u = k then filter (\<lambda>i. url (ls ! i) = u) [0..<n] @ [n]
                         else filter (\<lambda>i. url (ls ! i) = u) [0..<n])) keys"
      using dk True by (rule append_row_known)
    also have "\<dots> = map (\<lambda>u. (u, filter (\<lambda>i. url (ls ! i) = u) [0..<Suc n])) keys"
      by (simp add: k_def)
    finally show ?thesis
      unfolding step keys' using True by simp
  next
    case False
    then have "\<And>i. i < n \<Longrightarrow> url (ls ! i) \<noteq> k"
      using n unfolding sk by (metis imageI in_set_conv_nth length_take min.absorb2 less_imp_le nth_take)
    then have e: "filter (\<lambda>i. url (ls ! i) = k) [0..<n] = []"
      by (simp add: filter_empty_conv)
    have "append_row (map (\<lambda>u. (u, filter (\<lambda>i. url (ls ! i) = u) [0..<n])) keys) k n
        = map (\<lambda>u. (u, filter (\<lambda>i. url (ls ! i) = u) [0..<n])) keys @ [(k, [n])]"
      using False by (rule append_row_new)
    also have "\<dots> = map (\<lambda>u. (u, filter (\<lambda>i. url (ls ! i) = u) [0..<Suc n])) (keys @ [k])"
      using e False by (auto simp: k_def)
    finally show ?thesis
      unfolding step keys' using False by simp
  qed
qed

lemma group_by_url_eq:
  "group_by_url ls = map (\<lambda>u. (u, rows_of ls u)) (dict_fromkeys (map url ls))"
  using group_prefix [of "length ls" ls] by (simp add: group_by_url_def rows_of_def)

lemma bump_fresh:
  "bump synth seen i cur \<notin> set seen
   \<and> (bump synth seen i cur = cur \<or> (\<exists>k>i. bump synth seen i cur = numbered synth k))"
proof (induction synth seen i cur rule: bump.induct)
  case (1 synth seen i cur)
  show ?case
  proof (cases "cur \<in> set seen")
    case True
    with 1 have IH: "bump synth seen (Suc i) (numbered synth (Suc i)) \<notin> set seen
      \<and> (bump synth seen (Suc i) (numbered synth (Suc i)) = numbered synth (Suc i)
          \<or> (\<exists>k>Suc i. bump synth seen (Suc i) (numbered synth (Suc i)) = numbered synth k))"
      by simp
    have e: "bump synth seen i cur = bump synth seen (Suc i) (numbered synth (Suc i))"
      using True by (subst bump.simps) simp
    from IH show ?thesis
      unfolding e by (metis Suc_lessD lessI)
  next
    case False
    then have "bump synth seen i cur = cur"
      by (subst bump.simps) simp
    with False show ?thesis by simp
  qed
qed


abbreviation synth_form :: "string \<Rightarrow> listing \<Rightarrow> string \<Rightarrow> bool" where
  "synth_form u l x \<equiv> (x = synth_url u l \<or> (\<exists>k\<ge>2. x = numbered (synth_url u l) k))"

lemma rename_rows_props:
  "distinct rows \<Longrightarrow> \<forall>i \<in> set rows. i < length ls \<Longrightarrow>
     length (rename_rows u rows seen ls) = length ls
     \<and> (\<forall>j. j \<notin> set rows \<longrightarrow> rename_rows u rows seen ls ! j = ls ! j)
     \<and> (\<forall>j \<in> set rows.
           rename_rows u rows seen ls ! j = (ls ! j)\<lparr>url := url (rename_rows u rows seen ls ! j)\<rparr>
           \<and> url (rename_rows u rows seen ls ! j) \<notin> set seen
           \<and> synth_form u (ls ! j) (url (rename_rows u rows seen ls ! j)))
     \<and> distinct (map (\<lambda>j. url (rename_rows u rows seen ls ! j)) rows)"
proof (induction rows arbitrary: seen ls)
  case Nil
  show ?case by simp
next
  case (Cons i rows)
  define synth where "synth = synth_url u (ls ! i)"
  define un where "un = bump synth seen 1 synth"
  define ls' where "ls' = ls[i := (ls ! i)\<lparr>url := un\<rparr>]"
  define out where "out = rename_rows u rows (un # seen) ls'"
  have out: "rename_rows u (i # rows) seen ls = out"
    by (simp add: out_def ls'_def un_def synth_def Let_def)
  from Cons.prems have i: "i \<notin> set rows" "i < length ls" and d: "distinct rows"
    and b: "\<forall>j \<in> set rows. j < length ls'"
    by (simp_all add: ls'_def)
  from Cons.IH [OF d b, of "un # seen"]
  have len: "length out = length ls'"
    and keep: "\<And>j. j \<notin> set rows \<Longrightarrow> out ! j = ls' ! j"
    and ren: "\<And>j. j \<in> set rows \<Longrightarrow>
           out ! j = (ls' ! j)\<lparr>url := url (out ! j)\<rparr>
           \<and> url (out ! j) \<notin> set (un # seen)
           \<and> synth_form u (ls' ! j) (url (out ! j))"
    and dis: "distinct (map (\<lambda>j. url (out ! j)) rows)"
    unfolding out_def by blast+
  have same: "\<And>j. j \<noteq> i \<Longrightarrow> ls' ! j = ls ! j"
    by (simp add: ls'_def)
  have at_i: "out ! i = (ls ! i)\<lparr>url := un\<rparr>"
    using keep [OF i(1)] i(2) by (simp add: ls'_def)
  from bump_fresh [of synth seen 1 synth]
  have fresh: "un \<notin> set seen" and form: "un = synth \<or> (\<exists>k\<ge>2. un = numbered synth k)"
    unfolding un_def by (auto simp: Suc_le_eq numeral_2_eq_2)
  have 1: "length out = length ls"
    by (simp add: len ls'_def)
  have 2: "\<forall>j. j \<notin> set (i # rows) \<longrightarrow> out ! j = ls ! j"
    using keep same by simp
  have 3: "\<forall>j \<in> set (i # rows).
           out ! j = (ls ! j)\<lparr>url := url (out ! j)\<rparr>
           \<and> url (out ! j) \<notin> set seen
           \<and> synth_form u (ls ! j) (url (out ! j))"
  proof
    fix j assume j: "j \<in> set (i # rows)"
    show "out ! j = (ls ! j)\<lparr>url := url (out ! j)\<rparr>
           \<and> url (out ! j) \<notin> set seen
           \<and> synth_form u (ls ! j) (url (out ! j))"
    proof (cases "j = i")
      case True
      with at_i fresh form show ?thesis by (simp add: synth_def)
    next
      case False
      with j have jr: "j \<in> set rows" by simp
      from ren [OF jr] same [OF False] show ?thesis by simp
    qed
  qed
  have 4: "distinct (map (\<lambda>j. url (out ! j)) (i # rows))"
  proof -
    have a: "url (out ! i) = un" by (simp add: at_i)
    have "\<And>j. j \<in> set rows \<Longrightarrow> url (out ! j) \<noteq> un"
      using ren by auto
    then have "un \<notin> (\<lambda>j. url (out ! j)) ` set rows" by blast
    with dis show ?thesis by (simp add: a)
  qed
  from 1 2 3 4 show ?case unfolding out by blast
qed


lemma stabilize_groups_props:
  "distinct (concat (map snd gs)) \<Longrightarrow> \<forall>i \<in> set (concat (map snd gs)). i < length ls \<Longrightarrow>
     length (stabilize_groups gs ls) = length ls
     \<and> (\<forall>j. (\<forall>g \<in> set gs. j \<in> set (snd g) \<longrightarrow> length (snd g) = 1)
            \<longrightarrow> stabilize_groups gs ls ! j = ls ! j)
     \<and> (\<forall>g \<in> set gs. length (snd g) \<noteq> 1 \<longrightarrow>
           (\<forall>j \<in> set (snd g).
              stabilize_groups gs ls ! j = (ls ! j)\<lparr>url := url (stabilize_groups gs ls ! j)\<rparr>
              \<and> synth_form (fst g) (ls ! j) (url (stabilize_groups gs ls ! j)))
           \<and> distinct (map (\<lambda>j. url (stabilize_groups gs ls ! j)) (snd g)))"
proof (induction gs arbitrary: ls)
  case Nil
  show ?case by simp
next
  case (Cons g gs)
  obtain u rows where g: "g = (u, rows)" by (cases g)
  define ls1 where "ls1 = (if length rows = 1 then ls else rename_rows u rows [] ls)"
  define out where "out = stabilize_groups gs ls1"
  have out: "stabilize_groups (g # gs) ls = out"
    by (simp add: g out_def ls1_def)
  from Cons.prems have dr: "distinct rows" and dg: "distinct (concat (map snd gs))"
    and disj: "set rows \<inter> set (concat (map snd gs)) = {}"
    and br: "\<forall>i \<in> set rows. i < length ls"
    and bg: "\<forall>i \<in> set (concat (map snd gs)). i < length ls"
    by (simp_all add: g)
  note R = rename_rows_props [OF dr br, of u "[]"]
  have len1: "length ls1 = length ls"
    using R by (simp add: ls1_def)
  have keep1: "\<And>j. j \<notin> set rows \<Longrightarrow> ls1 ! j = ls ! j"
    using R by (simp add: ls1_def)
  from bg have bg1: "\<forall>i \<in> set (concat (map snd gs)). i < length ls1"
    by (simp add: len1)
  from Cons.IH [OF dg bg1]
  have len: "length out = length ls1"
    and keep: "\<And>j. (\<forall>h \<in> set gs. j \<in> set (snd h) \<longrightarrow> length (snd h) = 1) \<Longrightarrow> out ! j = ls1 ! j"
    and ren: "\<And>h j. h \<in> set gs \<Longrightarrow> length (snd h) \<noteq> 1 \<Longrightarrow> j \<in> set (snd h) \<Longrightarrow>
              out ! j = (ls1 ! j)\<lparr>url := url (out ! j)\<rparr>
              \<and> synth_form (fst h) (ls1 ! j) (url (out ! j))"
    and dis: "\<And>h. h \<in> set gs \<Longrightarrow> length (snd h) \<noteq> 1 \<Longrightarrow>
              distinct (map (\<lambda>j. url (out ! j)) (snd h))"
    unfolding out_def by blast+
  have other: "\<And>h j. h \<in> set gs \<Longrightarrow> j \<in> set (snd h) \<Longrightarrow> j \<notin> set rows"
    using disj by auto
  have here: "\<And>j. j \<in> set rows \<Longrightarrow> out ! j = ls1 ! j"
  proof -
    fix j assume "j \<in> set rows"
    with other have "\<forall>h \<in> set gs. j \<in> set (snd h) \<longrightarrow> length (snd h) = 1" by blast
    then show "out ! j = ls1 ! j" by (rule keep)
  qed
  have 1: "length out = length ls"
    by (simp add: len len1)
  have 2: "\<forall>j. (\<forall>h \<in> set (g # gs). j \<in> set (snd h) \<longrightarrow> length (snd h) = 1) \<longrightarrow> out ! j = ls ! j"
  proof (intro allI impI)
    fix j assume a: "\<forall>h \<in> set (g # gs). j \<in> set (snd h) \<longrightarrow> length (snd h) = 1"
    then have o: "out ! j = ls1 ! j" by (intro keep) simp
    show "out ! j = ls ! j"
    proof (cases "j \<in> set rows")
      case True
      with a have "length rows = 1" by (simp add: g)
      then show ?thesis using o by (simp add: ls1_def)
    next
      case False
      then show ?thesis using o keep1 by simp
    qed
  qed
  have 3: "\<forall>h \<in> set (g # gs). length (snd h) \<noteq> 1 \<longrightarrow>
           (\<forall>j \<in> set (snd h).
              out ! j = (ls ! j)\<lparr>url := url (out ! j)\<rparr>
              \<and> synth_form (fst h) (ls ! j) (url (out ! j)))
           \<and> distinct (map (\<lambda>j. url (out ! j)) (snd h))"
  proof (intro ballI impI)
    fix h assume h: "h \<in> set (g # gs)" and l: "length (snd h) \<noteq> 1"
    show "(\<forall>j \<in> set (snd h).
              out ! j = (ls ! j)\<lparr>url := url (out ! j)\<rparr>
              \<and> synth_form (fst h) (ls ! j) (url (out ! j)))
           \<and> distinct (map (\<lambda>j. url (out ! j)) (snd h))"
    proof (cases "h = g")
      case True
      with l have l1: "length rows \<noteq> 1" by (simp add: g)
      then have e: "ls1 = rename_rows u rows [] ls" by (simp add: ls1_def)
      have m: "map (\<lambda>j. url (out ! j)) rows = map (\<lambda>j. url (ls1 ! j)) rows"
        using here by simp
      from R have a: "\<forall>j \<in> set rows.
           ls1 ! j = (ls ! j)\<lparr>url := url (ls1 ! j)\<rparr> \<and> synth_form u (ls ! j) (url (ls1 ! j))"
        and b: "distinct (map (\<lambda>j. url (ls1 ! j)) rows)"
        unfolding e by blast+
      have b': "distinct (map (\<lambda>j. url (out ! j)) rows)"
        unfolding m by (rule b)
      from a here have a': "\<forall>j \<in> set rows.
           out ! j = (ls ! j)\<lparr>url := url (out ! j)\<rparr> \<and> synth_form u (ls ! j) (url (out ! j))"
        by simp
      from a' b' show ?thesis
        by (simp add: True g)
    next
      case False
      with h have hg: "h \<in> set gs" by simp
      have "\<forall>j \<in> set (snd h).
              out ! j = (ls ! j)\<lparr>url := url (out ! j)\<rparr>
              \<and> synth_form (fst h) (ls ! j) (url (out ! j))"
      proof
        fix j assume j: "j \<in> set (snd h)"
        from other [OF hg j] have "ls1 ! j = ls ! j" by (rule keep1)
        with ren [OF hg l j] show "out ! j = (ls ! j)\<lparr>url := url (out ! j)\<rparr>
              \<and> synth_form (fst h) (ls ! j) (url (out ! j))" by simp
      qed
      with dis [OF hg l] show ?thesis by simp
    qed
  qed
  from 1 2 3 show ?case unfolding out by blast
qed


lemma set_rows_of: "set (rows_of ls u) = {i. i < length ls \<and> url (ls ! i) = u}"
  by (auto simp: rows_of_def)

lemma distinct_rows_of: "distinct (rows_of ls u)"
  by (simp add: rows_of_def)

lemma distinct_all_rows: "distinct keys \<Longrightarrow> distinct (concat (map (rows_of ls) keys))"
  by (induction keys) (auto simp: distinct_rows_of set_rows_of)

lemma rows_of_single:
  "i < length ls \<Longrightarrow> \<forall>j<length ls. url (ls ! j) = url (ls ! i) \<longrightarrow> j = i \<Longrightarrow>
     length (rows_of ls (url (ls ! i))) = 1"
proof -
  assume i: "i < length ls" and u: "\<forall>j<length ls. url (ls ! j) = url (ls ! i) \<longrightarrow> j = i"
  then have "set (rows_of ls (url (ls ! i))) = {i}"
    by (auto simp: set_rows_of)
  then have "card (set (rows_of ls (url (ls ! i)))) = 1" by simp
  then show ?thesis
    by (simp add: distinct_card [OF distinct_rows_of])
qed

lemma rows_of_shared:
  "i < length ls \<Longrightarrow> j < length ls \<Longrightarrow> j \<noteq> i \<Longrightarrow> url (ls ! j) = url (ls ! i) \<Longrightarrow>
     length (rows_of ls (url (ls ! i))) \<noteq> 1"
proof
  assume i: "i < length ls" and j: "j < length ls" and ne: "j \<noteq> i"
    and u: "url (ls ! j) = url (ls ! i)" and l: "length (rows_of ls (url (ls ! i))) = 1"
  from l obtain x where x: "rows_of ls (url (ls ! i)) = [x]"
    by (cases "rows_of ls (url (ls ! i))") auto
  from i have "i \<in> set (rows_of ls (url (ls ! i)))" by (simp add: set_rows_of)
  then have ix: "i = x" unfolding x by simp
  from j u have "j \<in> set (rows_of ls (url (ls ! i)))" by (simp add: set_rows_of)
  then have "j = x" unfolding x by simp
  with ix ne show False by simp
qed

lemma synth_form_prefix: "synth_form u l x \<Longrightarrow> prefix u x"
  by (auto simp: synth_url_def numbered_def Let_def prefix_def)

text \<open>
  C2, as the code has it. \<open>_stabilize_unit_urls\<close> keeps the length of the list and
  changes nothing but URLs. A listing whose URL no other listing of the list carries is
  left as it is. A listing whose URL is shared gets the URL
  \<open>url + "#unit-" + _slug(title) + "-" + price\<close>, or that text with \<open>-k\<close> appended for
  some \<open>k\<close> from 2 on; in both cases the new URL begins with the old one, and two
  listings that shared a URL receive different URLs. Here \<open>_slug\<close> is the function
  of the code: it also strips the hyphens at both ends before it cuts to 60 characters,
  and gives \<open>unit\<close> when nothing is left; the title is stripped of whitespace first and
  a missing price counts as 0.
\<close>

theorem stabilize_unit_urls_disambiguates:
  "let out = stabilize_unit_urls ls in
     length out = length ls
     \<and> (\<forall>i<length ls. out ! i = (ls ! i)\<lparr>url := url (out ! i)\<rparr>)
     \<and> (\<forall>i<length ls. (\<forall>j<length ls. url (ls ! j) = url (ls ! i) \<longrightarrow> j = i) \<longrightarrow> out ! i = ls ! i)
     \<and> (\<forall>i<length ls. (\<exists>j<length ls. j \<noteq> i \<and> url (ls ! j) = url (ls ! i)) \<longrightarrow>
          synth_form (url (ls ! i)) (ls ! i) (url (out ! i)))
     \<and> (\<forall>i<length ls. prefix (url (ls ! i)) (url (out ! i)))
     \<and> (\<forall>i<length ls. \<forall>j<length ls. i \<noteq> j \<and> url (ls ! i) = url (ls ! j)
          \<longrightarrow> url (out ! i) \<noteq> url (out ! j))"
proof -
  define keys where "keys = dict_fromkeys (map url ls)"
  define gs where "gs = map (\<lambda>u. (u, rows_of ls u)) keys"
  define out where "out = stabilize_unit_urls ls"
  have out: "out = stabilize_groups gs ls"
    by (simp add: out_def stabilize_unit_urls_def group_by_url_eq gs_def keys_def)
  have dk: "distinct keys"
    unfolding keys_def by (rule distinct_dict_fromkeys)
  have sk: "set keys = url ` set ls"
    unfolding keys_def by (simp add: set_dict_fromkeys)
  have cc: "concat (map snd gs) = concat (map (rows_of ls) keys)"
    by (simp add: gs_def comp_def)
  have d: "distinct (concat (map snd gs))"
    unfolding cc using dk by (rule distinct_all_rows)
  have b: "\<forall>i \<in> set (concat (map snd gs)). i < length ls"
    unfolding cc by (auto simp: set_rows_of)
  from stabilize_groups_props [OF d b]
  have len: "length out = length ls"
    and keep: "\<And>j. (\<forall>g \<in> set gs. j \<in> set (snd g) \<longrightarrow> length (snd g) = 1) \<Longrightarrow> out ! j = ls ! j"
    and ren: "\<And>g j. g \<in> set gs \<Longrightarrow> length (snd g) \<noteq> 1 \<Longrightarrow> j \<in> set (snd g) \<Longrightarrow>
              out ! j = (ls ! j)\<lparr>url := url (out ! j)\<rparr>
              \<and> synth_form (fst g) (ls ! j) (url (out ! j))"
    and dis: "\<And>g. g \<in> set gs \<Longrightarrow> length (snd g) \<noteq> 1 \<Longrightarrow>
              distinct (map (\<lambda>j. url (out ! j)) (snd g))"
    unfolding out by blast+
  have mine: "(url (ls ! i), rows_of ls (url (ls ! i))) \<in> set gs" if "i < length ls" for i
    using that by (auto simp: gs_def sk)
  have only: "g = (url (ls ! i), rows_of ls (url (ls ! i)))"
    if "g \<in> set gs" "i \<in> set (snd g)" for g i
    using that by (auto simp: gs_def set_rows_of)
  have single: "out ! i = ls ! i"
    if i: "i < length ls" and l: "length (rows_of ls (url (ls ! i))) = 1" for i
  proof (rule keep, intro ballI impI)
    fix g assume "g \<in> set gs" and "i \<in> set (snd g)"
    from only [OF this] l show "length (snd g) = 1" by simp
  qed
  have multi: "out ! i = (ls ! i)\<lparr>url := url (out ! i)\<rparr>
              \<and> synth_form (url (ls ! i)) (ls ! i) (url (out ! i))"
    if i: "i < length ls" and l: "length (rows_of ls (url (ls ! i))) \<noteq> 1" for i
    using ren [OF mine [OF i]] i l by (simp add: set_rows_of)
  have 2: "out ! i = (ls ! i)\<lparr>url := url (out ! i)\<rparr>" if i: "i < length ls" for i
  proof (cases "length (rows_of ls (url (ls ! i))) = 1")
    case True
    from single [OF i True] show ?thesis by simp
  next
    case False
    from multi [OF i False] show ?thesis by simp
  qed
  have 3: "out ! i = ls ! i"
    if i: "i < length ls" and u: "\<forall>j<length ls. url (ls ! j) = url (ls ! i) \<longrightarrow> j = i" for i
    using single [OF i rows_of_single [OF i u]] .
  have 4: "synth_form (url (ls ! i)) (ls ! i) (url (out ! i))"
    if i: "i < length ls" and s: "\<exists>j<length ls. j \<noteq> i \<and> url (ls ! j) = url (ls ! i)" for i
  proof -
    from s obtain j where "j < length ls" "j \<noteq> i" "url (ls ! j) = url (ls ! i)" by blast
    from rows_of_shared [OF i this] multi [OF i] show ?thesis by simp
  qed
  have 5: "prefix (url (ls ! i)) (url (out ! i))" if i: "i < length ls" for i
  proof (cases "length (rows_of ls (url (ls ! i))) = 1")
    case True
    from single [OF i True] show ?thesis by simp
  next
    case False
    from multi [OF i False] have "synth_form (url (ls ! i)) (ls ! i) (url (out ! i))" by simp
    then show ?thesis by (rule synth_form_prefix)
  qed
  have 6: "url (out ! i) \<noteq> url (out ! j)"
    if i: "i < length ls" and j: "j < length ls" and ne: "i \<noteq> j"
      and u: "url (ls ! i) = url (ls ! j)" for i j
  proof -
    from rows_of_shared [OF i j] ne u have l: "length (rows_of ls (url (ls ! i))) \<noteq> 1" by simp
    from dis [OF mine [OF i]] l
    have "distinct (map (\<lambda>j. url (out ! j)) (rows_of ls (url (ls ! i))))" by simp
    then have inj: "inj_on (\<lambda>j. url (out ! j)) (set (rows_of ls (url (ls ! i))))"
      by (simp add: distinct_map)
    from i j u have "i \<in> set (rows_of ls (url (ls ! i)))" "j \<in> set (rows_of ls (url (ls ! i)))"
      by (simp_all add: set_rows_of)
    with inj ne show ?thesis by (auto dest: inj_onD)
  qed
  from len 2 3 4 5 6 show ?thesis
    unfolding Let_def out_def [symmetric] by blast
qed

theorem stabilize_unit_urls_disambiguates_witness:
  "map url (stabilize_unit_urls demo_units)
     = [''https://x.com/plans#unit-a1-1200'', ''https://x.com/plans#unit-a1-1200-2'',
        ''https://x.com/plans#unit-b2-1300'', ''https://x.com/a'']
   \<and> (0 :: nat) < length demo_units \<and> (1 :: nat) < length demo_units
   \<and> url (demo_units ! 0) = url (demo_units ! 1)
   \<and> url (stabilize_unit_urls demo_units ! 0) \<noteq> url (stabilize_unit_urls demo_units ! 1)
   \<and> length (stabilize_unit_urls demo_units) = length demo_units"
proof -
  have e: "map url (stabilize_unit_urls demo_units)
     = [''https://x.com/plans#unit-a1-1200'', ''https://x.com/plans#unit-a1-1200-2'',
        ''https://x.com/plans#unit-b2-1300'', ''https://x.com/a'']"
    by (simp add: stabilize_unit_urls_def group_by_url_def demo_units_def demo_listing_def
        synth_url_def slug_def lower_def lower_char_def is_upper_def strip_def strip_where_def
        isspace_def is_slug_char_def str_int_def str_nat.simps digit_char_def bump.simps
        numbered_def Let_def)
  have l0: "(0 :: nat) < length demo_units" and l1: "(1 :: nat) < length demo_units"
    by (simp_all add: demo_units_def)
  have u: "url (demo_units ! 0) = url (demo_units ! 1)"
    by (simp add: demo_units_def)
  note t = stabilize_unit_urls_disambiguates [of demo_units, unfolded Let_def]
  from t have len: "length (stabilize_unit_urls demo_units) = length demo_units"
    by (rule conjunct1)
  from t have "\<forall>i<length demo_units. \<forall>j<length demo_units.
      i \<noteq> j \<and> url (demo_units ! i) = url (demo_units ! j)
      \<longrightarrow> url (stabilize_unit_urls demo_units ! i) \<noteq> url (stabilize_unit_urls demo_units ! j)"
    by (elim conjE)
  then have "(0 :: nat) < length demo_units \<longrightarrow> (\<forall>j<length demo_units.
      0 \<noteq> j \<and> url (demo_units ! 0) = url (demo_units ! j)
      \<longrightarrow> url (stabilize_unit_urls demo_units ! 0) \<noteq> url (stabilize_unit_urls demo_units ! j))"
    by (rule spec)
  with l0 have "\<forall>j<length demo_units.
      0 \<noteq> j \<and> url (demo_units ! 0) = url (demo_units ! j)
      \<longrightarrow> url (stabilize_unit_urls demo_units ! 0) \<noteq> url (stabilize_unit_urls demo_units ! j)"
    by (rule rev_mp)
  then have "(1 :: nat) < length demo_units \<longrightarrow>
      (0 :: nat) \<noteq> 1 \<and> url (demo_units ! 0) = url (demo_units ! 1)
      \<longrightarrow> url (stabilize_unit_urls demo_units ! 0) \<noteq> url (stabilize_unit_urls demo_units ! 1)"
    by (rule spec)
  with l1 u have d: "url (stabilize_unit_urls demo_units ! 0) \<noteq> url (stabilize_unit_urls demo_units ! 1)"
    by simp
  from e l0 l1 u d len show ?thesis by blast
qed

text \<open>
  With the slug as the specification words it, the first of the two units \<open>A1!\<close> and
  \<open>B2\<close> of one page would get a URL that begins with \<open>...#unit-a1--1200\<close>; the code
  gives \<open>...#unit-a1-1200\<close>, which does not begin so.
\<close>

theorem stabilize_unit_urls_slug_counterexample:
  "map url (stabilize_unit_urls
      [demo_listing\<lparr>url := ''https://x.com/plans'', title := Some ''A1!''\<rparr>,
       demo_listing\<lparr>url := ''https://x.com/plans'', title := Some ''B2'', price := Some 1300\<rparr>])
     = [''https://x.com/plans#unit-a1-1200'', ''https://x.com/plans#unit-b2-1300'']
   \<and> ''https://x.com/plans'' @ ''#unit-'' @ spec_slug ''A1!'' @ ''-'' @ str_int 1200
     = ''https://x.com/plans#unit-a1--1200''
   \<and> \<not> prefix (''https://x.com/plans'' @ ''#unit-'' @ spec_slug ''A1!'' @ ''-'' @ str_int 1200)
         ''https://x.com/plans#unit-a1-1200''"
  by (simp add: stabilize_unit_urls_def group_by_url_def demo_listing_def
      synth_url_def slug_def spec_slug_def lower_def lower_char_def is_upper_def strip_def
      strip_where_def isspace_def is_slug_char_def str_int_def str_nat.simps digit_char_def
      bump.simps numbered_def Let_def)

end
